theory Spec2Isabelle
  imports Main
begin

section \<open>Strings\<close>

text \<open>
  The probe \<^verbatim>\<open>checkmk/splunk_health_check.py\<close> works on Python \<^verbatim>\<open>str\<close> values. They are
  modelled as \<^typ>\<open>string\<close>, a list of 8-bit characters, each read as the code point of
  the same number (U+0000 to U+00FF). On these, the character classes and the case
  conversions below are those of Python: white space is the white space of
  \<^verbatim>\<open>str.isspace\<close>, of \<^verbatim>\<open>str.strip\<close> and of the regex class \<^verbatim>\<open>\s\<close> (codes 9-13, 28-32, 0x85
  and 0xA0), a decimal digit is one of 0-9, and the letters that have another case are
  A-Z, a-z and the accented letters from 0xC0 to 0xFE.
\<close>

definition upper_letters :: string where
  "upper_letters = ''ABCDEFGHIJKLMNOPQRSTUVWXYZ''"

definition lower_letters :: string where
  "lower_letters = ''abcdefghijklmnopqrstuvwxyz''"

definition digits :: string where
  "digits = ''0123456789''"

text \<open>
  The upper case letters from 0xC0 to 0xDE (0xD7 is the multiplication sign) and, in the
  same order, their lower case forms from 0xE0 to 0xFE (0xF7 is the division sign).
\<close>

definition latin_upper_letters :: string where
  "latin_upper_letters =
     [CHR 0xC0, CHR 0xC1, CHR 0xC2, CHR 0xC3, CHR 0xC4, CHR 0xC5, CHR 0xC6, CHR 0xC7,
      CHR 0xC8, CHR 0xC9, CHR 0xCA, CHR 0xCB, CHR 0xCC, CHR 0xCD, CHR 0xCE, CHR 0xCF,
      CHR 0xD0, CHR 0xD1, CHR 0xD2, CHR 0xD3, CHR 0xD4, CHR 0xD5, CHR 0xD6, CHR 0xD8,
      CHR 0xD9, CHR 0xDA, CHR 0xDB, CHR 0xDC, CHR 0xDD, CHR 0xDE]"

definition latin_lower_letters :: string where
  "latin_lower_letters =
     [CHR 0xE0, CHR 0xE1, CHR 0xE2, CHR 0xE3, CHR 0xE4, CHR 0xE5, CHR 0xE6, CHR 0xE7,
      CHR 0xE8, CHR 0xE9, CHR 0xEA, CHR 0xEB, CHR 0xEC, CHR 0xED, CHR 0xEE, CHR 0xEF,
      CHR 0xF0, CHR 0xF1, CHR 0xF2, CHR 0xF3, CHR 0xF4, CHR 0xF5, CHR 0xF6, CHR 0xF8,
      CHR 0xF9, CHR 0xFA, CHR 0xFB, CHR 0xFC, CHR 0xFD, CHR 0xFE]"

definition lower_chr :: "char \<Rightarrow> char" where
  "lower_chr c =
     (case map_of (zip (upper_letters @ latin_upper_letters) (lower_letters @ latin_lower_letters)) c of
        None \<Rightarrow> c
      | Some d \<Rightarrow> d)"

text \<open>
  The upper case of a character is a string: that of the sharp s (0xDF) is \<^verbatim>\<open>SS\<close>. The
  upper case of the micro sign (0xB5) and of the y with diaeresis (0xFF) is no 8-bit
  character (U+039C and U+0178); \<open>upper_chr\<close> leaves these two as they are, and
  \<open>upper_in_range s\<close> says that \<open>s\<close> holds neither, which is when \<open>upper s\<close> is the result of
  \<^verbatim>\<open>str.upper\<close>.
\<close>

definition upper_chr :: "char \<Rightarrow> string" where
  "upper_chr c =
     (if c = CHR 0xDF then ''SS''
      else (case map_of (zip (lower_letters @ latin_lower_letters) (upper_letters @ latin_upper_letters)) c of
              None \<Rightarrow> [c]
            | Some d \<Rightarrow> [d]))"

definition upper_in_range :: "string \<Rightarrow> bool" where
  "upper_in_range s = (CHR 0xB5 \<notin> set s \<and> CHR 0xFF \<notin> set s)"

text \<open>\<^verbatim>\<open>str.lower\<close> and \<^verbatim>\<open>str.upper\<close>.\<close>

definition lower :: "string \<Rightarrow> string" where
  "lower s = map lower_chr s"

definition upper :: "string \<Rightarrow> string" where
  "upper s = concat (map upper_chr s)"

definition newline :: char where
  "newline = CHR 0x0A"

definition is_space :: "char \<Rightarrow> bool" where
  "is_space c = (c \<in> set [CHR 0x09, CHR 0x0A, CHR 0x0B, CHR 0x0C, CHR 0x0D,
                           CHR 0x1C, CHR 0x1D, CHR 0x1E, CHR 0x1F, CHR 0x20,
                           CHR 0x85, CHR 0xA0])"

definition is_digit :: "char \<Rightarrow> bool" where
  "is_digit c = (c \<in> set digits)"

text \<open>The class \<^verbatim>\<open>[a-zA-Z0-9_]\<close> of attribute keys.\<close>

definition is_word :: "char \<Rightarrow> bool" where
  "is_word c = (c \<in> set (lower_letters @ upper_letters @ digits @ ''_''))"

text \<open>\<^verbatim>\<open>str.strip()\<close>: white space removed at both ends.\<close>

definition strip :: "string \<Rightarrow> string" where
  "strip s = rev (dropWhile is_space (rev (dropWhile is_space s)))"

text \<open>\<^verbatim>\<open>s.startswith(p)\<close>.\<close>

fun startswith :: "string \<Rightarrow> string \<Rightarrow> bool" where
  "startswith s [] = True"
| "startswith [] (p # ps) = False"
| "startswith (c # cs) (p # ps) = (c = p \<and> startswith cs ps)"

text \<open>\<^verbatim>\<open>sub in s\<close>.\<close>

fun contains :: "string \<Rightarrow> string \<Rightarrow> bool" where
  "contains [] sub = (sub = [])"
| "contains (c # cs) sub = (startswith (c # cs) sub \<or> contains cs sub)"

text \<open>\<^verbatim>\<open>sep.join(xs)\<close>.\<close>

fun join :: "string \<Rightarrow> string list \<Rightarrow> string" where
  "join sep [] = []"
| "join sep [x] = x"
| "join sep (x # y # ys) = x @ sep @ join sep (y # ys)"

text \<open>
  \<^verbatim>\<open>s.split(sep)\<close> for a non-empty separator: the pieces between the non-overlapping
  occurrences of \<open>sep\<close>, found from the left. \<open>cur\<close> holds the current piece, reversed.
  Python raises \<^verbatim>\<open>ValueError\<close> on an empty separator; the probe only splits on
  fixed non-empty ones, and the model then returns the string unsplit.
\<close>

function split_from :: "string \<Rightarrow> string \<Rightarrow> string \<Rightarrow> string list" where
  "split_from sep cur [] = [rev cur]"
| "split_from sep cur (c # cs) =
     (if sep \<noteq> [] \<and> startswith (c # cs) sep
      then rev cur # split_from sep [] (drop (length sep) (c # cs))
      else split_from sep (c # cur) cs)"
  by pat_completeness auto
termination
  by (relation "measure (\<lambda>(sep, cur, s). length s)") (auto simp: neq_Nil_conv)

definition split :: "string \<Rightarrow> string \<Rightarrow> string list" where
  "split s sep = split_from sep [] s"

text \<open>Formatting of a natural number by an f-string: its decimal digits.\<close>

definition digit_chr :: "nat \<Rightarrow> char" where
  "digit_chr d = digits ! d"

function str_nat :: "nat \<Rightarrow> string" where
  "str_nat n = (if n < 10 then [digit_chr n] else str_nat (n div 10) @ [digit_chr (n mod 10)])"
  by pat_completeness auto
termination
  by (relation "measure id") auto

declare str_nat.simps [simp del]


definition quote :: char where
  "quote = CHR 0x22"

definition apostrophe :: char where
  "apostrophe = CHR 0x27"

definition backslash :: char where
  "backslash = CHR 0x5C"


section \<open>Attribute parser\<close>

text \<open>
  \<^verbatim>\<open>parse_attributes\<close> scans its argument with \<^verbatim>\<open>re.finditer\<close> for the pattern
  \<^verbatim>\<open>([a-zA-Z0-9_]+)=("([^"]*)"|([^"\s]+))\<close>.

  \<open>match_attribute s\<close> is one attempt of the pattern at the start of \<open>s\<close>: the key
  (group 1), the value (group 3 if the quoted alternative matched, else group 4) and the
  text after the match. Group 1 is greedy and must be followed by \<^verbatim>\<open>=\<close>, so it is the
  longest run of key characters. The quoted alternative is tried first and succeeds when a
  closing quote exists; group 3 then ends at the first one. Otherwise group 4 must take
  at least one character that is neither a quote nor white space, and takes the longest
  such run.
\<close>

definition unquoted :: "char \<Rightarrow> bool" where
  "unquoted c = (c \<noteq> quote \<and> \<not> is_space c)"

definition not_quote :: "char \<Rightarrow> bool" where
  "not_quote c = (c \<noteq> quote)"

definition match_value :: "string \<Rightarrow> (string \<times> string) option" where
  "match_value r =
     (case r of
        [] \<Rightarrow> None
      | q # t \<Rightarrow>
          if q = quote then
            (if quote \<in> set t
             then Some (takeWhile not_quote t, tl (dropWhile not_quote t))
             else None)
          else if unquoted q then Some (takeWhile unquoted r, dropWhile unquoted r)
          else None)"

definition match_attribute :: "string \<Rightarrow> (string \<times> string \<times> string) option" where
  "match_attribute s =
     (let key = takeWhile is_word s in
      if key = [] then None
      else (case dropWhile is_word s of
              [] \<Rightarrow> None
            | e # r \<Rightarrow>
                if e = CHR ''='' then
                  (case match_value r of
                     None \<Rightarrow> None
                   | Some (v, rest) \<Rightarrow> Some (key, v, rest))
                else None))"

text \<open>
  The matches of \<^verbatim>\<open>re.finditer\<close>, left to right: where the pattern does not match, the
  scan moves on by one character; after a match it resumes behind it.
\<close>

function find_attributes :: "string \<Rightarrow> (string \<times> string) list" where
  "find_attributes [] = []"
| "find_attributes (c # cs) =
     (case match_attribute (c # cs) of
        None \<Rightarrow> find_attributes cs
      | Some (key, v, rest) \<Rightarrow> (key, v) # find_attributes rest)"
  by pat_completeness auto
termination
proof (relation "measure length")
  show "wf (measure length)" by simp
next
  fix c :: char and cs
  show "(cs, c # cs) \<in> measure length" by simp
next
  fix c :: char and cs x2 x y xa ya
  assume m: "match_attribute (c # cs) = Some x2" and x2: "(x, y) = x2" and y: "(xa, ya) = y"
  let ?s = "c # cs"
  from m x2 y obtain r where r: "dropWhile is_word ?s = CHR ''='' # r"
    and v: "match_value r = Some (xa, ya)"
    by (auto simp: match_attribute_def Let_def split: list.splits if_splits option.splits)
  have "length ya \<le> length r"
  proof (cases r)
    case Nil
    with v show ?thesis by (simp add: match_value_def)
  next
    case (Cons q t)
    have "length (dropWhile not_quote t) \<le> length t"
      by (rule length_dropWhile_le)
    then have "length (tl (dropWhile not_quote t)) \<le> length t"
      by simp
    moreover have "length (dropWhile unquoted r) \<le> length r"
      by (rule length_dropWhile_le)
    ultimately show ?thesis
      using v Cons by (auto simp: match_value_def split: if_splits)
  qed
  moreover have "length (dropWhile is_word ?s) \<le> length ?s"
    by (rule length_dropWhile_le)
  ultimately have "length ya < length ?s"
    using r by simp
  then show "(ya, c # cs) \<in> measure length" by simp
qed

text \<open>The dictionary built from the matches: a later match of a key replaces an earlier one.\<close>

definition parse_attributes :: "string \<Rightarrow> (string \<rightharpoonup> string)" where
  "parse_attributes attribute_string =
     fold (\<lambda>(key, v) attributes. attributes(key \<mapsto> v)) (find_attributes attribute_string) Map.empty"


section \<open>Block selector\<close>

text \<open>
  The timestamp pattern
  \<^verbatim>\<open>^\d{2}-\d{2}-\d{4} \d{2}:\d{2}:\d{2}\.\d{3} [+-]\d{4}\<close>
  is a sequence of one-character classes, matched at the start of the line by \<^verbatim>\<open>re.match\<close>;
  \<open>match_prefix\<close> returns the matched text (group 0).
\<close>

datatype cls = Digit | Lit char | Sign

fun matches_cls :: "cls \<Rightarrow> char \<Rightarrow> bool" where
  "matches_cls Digit c = is_digit c"
| "matches_cls (Lit d) c = (c = d)"
| "matches_cls Sign c = (c = CHR ''+'' \<or> c = CHR ''-'')"

definition timestamp_regex :: "cls list" where
  "timestamp_regex =
     [Digit, Digit, Lit (CHR ''-''), Digit, Digit, Lit (CHR ''-''), Digit, Digit, Digit, Digit,
      Lit (CHR '' ''),
      Digit, Digit, Lit (CHR '':''), Digit, Digit, Lit (CHR '':''), Digit, Digit,
      Lit (CHR ''.''), Digit, Digit, Digit,
      Lit (CHR '' ''), Sign, Digit, Digit, Digit, Digit]"

fun match_prefix :: "cls list \<Rightarrow> string \<Rightarrow> string option" where
  "match_prefix [] s = Some []"
| "match_prefix (k # ks) [] = None"
| "match_prefix (k # ks) (c # cs) =
     (if matches_cls k c then map_option ((#) c) (match_prefix ks cs) else None)"

text \<open>
  The loop over \<^verbatim>\<open>reversed(lines)\<close>: a line that starts with the prefix is inserted at the
  front of the block, the first other line ends the loop.
\<close>

fun collect_block :: "string \<Rightarrow> string list \<Rightarrow> string list \<Rightarrow> string list" where
  "collect_block latest_timestamp_prefix [] latest_block = latest_block"
| "collect_block latest_timestamp_prefix (line # ls) latest_block =
     (if startswith line latest_timestamp_prefix
      then collect_block latest_timestamp_prefix ls (line # latest_block)
      else latest_block)"

definition marker :: string where
  "marker = ''PeriodicHealthReporter''"

text \<open>\<^verbatim>\<open>get_latest_log_block\<close> from the filtered lines on: an error message, or the block and its timestamp.\<close>

definition select_block :: "string list \<Rightarrow> string + (string list \<times> string)" where
  "select_block lines =
     (if lines = []
      then Inl (''No '' @ [apostrophe] @ marker @ [apostrophe] @ '' entries found in the last 200 lines of the log.'')
      else (case match_prefix timestamp_regex (last lines) of
              None \<Rightarrow> Inl ''Could not determine timestamp from the last log entry.''
            | Some latest_timestamp_prefix \<Rightarrow>
                Inr (collect_block latest_timestamp_prefix (rev lines) [], latest_timestamp_prefix)))"

text \<open>
  What \<^verbatim>\<open>subprocess.run(['tail', '-n', '200', path])\<close> did: it completed with a return
  code, standard output and standard error, or it raised an \<^verbatim>\<open>OSError\<close> with a message.
  \<^verbatim>\<open>FileNotFoundError\<close> is an \<^verbatim>\<open>OSError\<close>, which Python 3 also names \<^verbatim>\<open>IOError\<close>, so the
  first handler takes every such exception.
\<close>

datatype tail_run = Completed int string string | Raised string

definition get_latest_log_block :: "tail_run \<Rightarrow> string + (string list \<times> string)" where
  "get_latest_log_block process =
     (case process of
        Raised e \<Rightarrow> Inl (''Error reading log file: '' @ e)
      | Completed returncode stdout stderr \<Rightarrow>
          if returncode \<noteq> 0
          then Inl (''Error running '' @ [apostrophe] @ ''tail'' @ [apostrophe] @ '' command: '' @ stderr)
          else select_block (filter (\<lambda>line. contains line marker) (split (strip stdout) [newline])))"


section \<open>Entries\<close>

text \<open>
  An entry is the attribute dictionary of a block line together with the raw attribute
  string it was parsed from. A line is split on the separator with \<^verbatim>\<open>str.split\<close>, and a
  line with more than one part gives the entry of its second part, stripped.
\<close>

type_synonym entry = "(string \<rightharpoonup> string) \<times> string"

definition separator :: string where
  "separator = ''PeriodicHealthReporter - ''"

fun entries_with_raw :: "string list \<Rightarrow> entry list" where
  "entries_with_raw [] = []"
| "entries_with_raw (line # ls) =
     (case split line separator of
        p0 # p1 # ps \<Rightarrow> (parse_attributes (strip p1), strip p1) # entries_with_raw ls
      | _ \<Rightarrow> entries_with_raw ls)"


section \<open>Severity reducer\<close>

text \<open>\<^verbatim>\<open>d.get(key, default)\<close>.\<close>

definition get_default :: "(string \<rightharpoonup> string) \<Rightarrow> string \<Rightarrow> string \<Rightarrow> string" where
  "get_default d key dflt = (case d key of None \<Rightarrow> dflt | Some v \<Rightarrow> v)"

definition color_precedence :: "string \<rightharpoonup> nat" where
  "color_precedence = map_of [(''red'', 2), (''yellow'', 1), (''green'', 0)]"

text \<open>The colour the reducer reads from an entry: \<^verbatim>\<open>entry_dict.get('color', 'green').lower()\<close>.\<close>

definition entry_color :: "entry \<Rightarrow> string" where
  "entry_color e = lower (get_default (fst e) ''color'' ''green'')"

text \<open>One round of the loop that keeps the worst colour and its level.\<close>

definition worst_step :: "string \<times> nat \<Rightarrow> entry \<Rightarrow> string \<times> nat" where
  "worst_step worst e =
     (let color_str = entry_color e in
      case color_precedence color_str of
        None \<Rightarrow> worst
      | Some color_level \<Rightarrow> if color_level > snd worst then (color_str, color_level) else worst)"

definition overall_color :: "entry list \<Rightarrow> string" where
  "overall_color entries = fst (foldl worst_step (''green'', 0) entries)"


section \<open>Reporter\<close>

definition status_map :: "string \<rightharpoonup> nat \<times> string" where
  "status_map = map_of [(''green'', (0, ''OK'')), (''yellow'', (1, ''WARN'')), (''red'', (2, ''CRIT''))]"

text \<open>\<^verbatim>\<open>status_map.get(overall_color, (3, 'UNKNOWN'))\<close>.\<close>

definition status_of :: "string \<Rightarrow> nat \<times> string" where
  "status_of color = (case status_map color of None \<Rightarrow> (3, ''UNKNOWN'') | Some st \<Rightarrow> st)"

definition status_code :: "entry list \<Rightarrow> nat" where
  "status_code entries = fst (status_of (overall_color entries))"

definition status_text :: "entry list \<Rightarrow> string" where
  "status_text entries = snd (status_of (overall_color entries))"

text \<open>The summary as first built, before any issues are added.\<close>

definition output_summary :: "entry list \<Rightarrow> string \<Rightarrow> string" where
  "output_summary entries timestamp =
     status_text entries @ '': Overall status is '' @ upper (overall_color entries)
       @ '' (Log Time: '' @ timestamp @ '')''"

definition is_problem :: "entry \<Rightarrow> bool" where
  "is_problem e = (entry_color e \<noteq> ''green'')"

text \<open>The entries collected as problems: none unless the status code is above 0.\<close>

definition problems :: "entry list \<Rightarrow> entry list" where
  "problems entries = (if status_code entries > 0 then filter is_problem entries else [])"

definition problem_lines_raw :: "entry list \<Rightarrow> string list" where
  "problem_lines_raw entries = map snd (problems entries)"

text \<open>
  \<^verbatim>\<open>entry_dict.get('feature') or entry_dict.get('node_path') or 'Component'\<close>: Python's
  \<^verbatim>\<open>or\<close> passes over \<^verbatim>\<open>None\<close> and over the empty string.
\<close>

definition display_name :: "(string \<rightharpoonup> string) \<Rightarrow> string" where
  "display_name d =
     (case d ''feature'' of
        Some (c # cs) \<Rightarrow> c # cs
      | _ \<Rightarrow> (case d ''node_path'' of
                Some (c # cs) \<Rightarrow> c # cs
              | _ \<Rightarrow> ''Component''))"

definition problem_item :: "entry \<Rightarrow> string" where
  "problem_item e =
     ''['' @ upper (get_default (fst e) ''color'' ''N/A'') @ ''] '' @ display_name (fst e)"

definition problems_summary_list :: "entry list \<Rightarrow> string list" where
  "problems_summary_list entries = map problem_item (problems entries)"

text \<open>The text added to the summary when there are problems.\<close>

definition issues_section :: "entry list \<Rightarrow> string" where
  "issues_section entries =
     '' (Issues: '' @ join '', '' (take 2 (problems_summary_list entries)) @ ''...)''"

text \<open>The two characters backslash and n that the script writes as \<^verbatim>\<open>"\\n"\<close>.\<close>

definition escaped_newline :: string where
  "escaped_newline = [backslash, CHR ''n'']"

text \<open>
  The branch taken when problem lines were collected: the summary gains the issues, and
  the raw problem lines follow it, each behind an escaped newline.
\<close>

definition summary_line :: "entry list \<Rightarrow> string \<Rightarrow> string" where
  "summary_line entries timestamp =
     (if problem_lines_raw entries \<noteq> []
      then output_summary entries timestamp @ issues_section entries
      else output_summary entries timestamp)"

definition final_output :: "entry list \<Rightarrow> string \<Rightarrow> string" where
  "final_output entries timestamp =
     (if problem_lines_raw entries \<noteq> []
      then summary_line entries timestamp
             @ escaped_newline @ join escaped_newline (problem_lines_raw entries)
      else summary_line entries timestamp)"

text \<open>The line given to \<^verbatim>\<open>print\<close>, without the line end that \<^verbatim>\<open>print\<close> adds.\<close>

definition service_line :: "string \<Rightarrow> string \<Rightarrow> string" where
  "service_line code body = code @ '' '' @ [quote] @ ''Splunk Health'' @ [quote] @ '' - '' @ body"

definition report :: "entry list \<Rightarrow> string \<Rightarrow> string" where
  "report entries timestamp =
     service_line (str_nat (status_code entries)) (final_output entries timestamp)"

definition unknown_line :: "string \<Rightarrow> string" where
  "unknown_line msg = service_line ''3'' (''UNKNOWN: '' @ msg)"

text \<open>\<^verbatim>\<open>main\<close>: what the probe prints for an outcome of the tail run.\<close>

definition main :: "tail_run \<Rightarrow> string" where
  "main process =
     (case get_latest_log_block process of
        Inl error \<Rightarrow> unknown_line error
      | Inr (latest_block, timestamp) \<Rightarrow>
          if latest_block = []
          then unknown_line ''Could not find a valid health report block in the log.''
          else (let entries = entries_with_raw latest_block in
                if entries = []
                then unknown_line ''No attributes parsed from the latest report.''
                else report entries timestamp))"


section \<open>The text around a separator\<close>

text \<open>
  Two functions that do not come from the script, used to say which part of a line the
  script takes. \<open>after_first sep s\<close> is everything in \<open>s\<close> after the first occurrence of
  \<open>sep\<close> (nothing if there is none), and \<open>before_first sep s\<close> is everything in \<open>s\<close> before
  the first occurrence of \<open>sep\<close> (all of \<open>s\<close> if there is none).
\<close>

fun after_first :: "string \<Rightarrow> string \<Rightarrow> string" where
  "after_first sep [] = []"
| "after_first sep (c # cs) =
     (if startswith (c # cs) sep then drop (length sep) (c # cs) else after_first sep cs)"

fun before_first :: "string \<Rightarrow> string \<Rightarrow> string" where
  "before_first sep [] = []"
| "before_first sep (c # cs) =
     (if startswith (c # cs) sep then [] else c # before_first sep cs)"

text \<open>The text of \<open>s\<close> up to its first white space: a token of non-white-space characters.\<close>

definition non_space_token :: "string \<Rightarrow> string" where
  "non_space_token s = takeWhile (\<lambda>c. \<not> is_space c) s"


section \<open>An example log\<close>

text \<open>Five lines of a health log: two of an older report, three of the latest.\<close>

definition older_timestamp :: string where
  "older_timestamp = ''13-11-2025 09:00:00.000 +0100''"

definition latest_timestamp :: string where
  "latest_timestamp = ''14-11-2025 10:00:00.123 +0100''"

definition raw_a :: string where
  "raw_a = ''color=green feature=A''"

definition raw_b :: string where
  "raw_b = ''color=red feature=B''"

definition raw_c :: string where
  "raw_c = ''color=yellow feature=C''"

definition log_line :: "string \<Rightarrow> string \<Rightarrow> string" where
  "log_line timestamp raw = timestamp @ '' INFO  PeriodicHealthReporter - '' @ raw"

definition example_lines :: "string list" where
  "example_lines =
     [log_line older_timestamp raw_a, log_line older_timestamp raw_b,
      log_line latest_timestamp raw_a, log_line latest_timestamp raw_b,
      log_line latest_timestamp raw_c]"

definition example_block :: "string list" where
  "example_block =
     [log_line latest_timestamp raw_a, log_line latest_timestamp raw_b,
      log_line latest_timestamp raw_c]"

text \<open>The attribute string \<^verbatim>\<open>color=red feature="Indexing Pipeline" count=3\<close>.\<close>

definition indexing_raw :: string where
  "indexing_raw = ''color=red feature='' @ [quote] @ ''Indexing Pipeline'' @ [quote] @ '' count=3''"

text \<open>A line with the separator twice, and a line with the marker but no separator.\<close>

definition twice_line :: string where
  "twice_line = log_line latest_timestamp (raw_b @ '' PeriodicHealthReporter - '' @ raw_c)"

definition plain_line :: string where
  "plain_line = latest_timestamp @ '' INFO  PeriodicHealthReporter started''"

text \<open>A line whose attribute string stands between two no-break spaces (0xA0).\<close>

definition nbsp_line :: string where
  "nbsp_line = log_line latest_timestamp ([CHR 0xA0] @ raw_b @ [CHR 0xA0])"

text \<open>The attribute string \<^verbatim>\<open>a=x"y"\<close>, whose value has a quote inside.\<close>

definition mixed_token_raw :: string where
  "mixed_token_raw = ''a=x'' @ [quote] @ ''y'' @ [quote]"

text \<open>An entry of an unrecognized colour, and a colour with a sharp s.\<close>

definition blue_entry :: entry where
  "blue_entry = ([''color'' \<mapsto> ''blue''], ''color=blue'')"

definition strasse :: string where
  "strasse = ''stra'' @ [CHR 0xDF] @ ''e''"

text \<open>The standard output of a tail run that ends with the five example lines.\<close>

definition example_stdout :: string where
  "example_stdout = join [newline] example_lines @ [newline]"


section \<open>Facts about the severity reducer\<close>

lemma color_precedence_cases:
  "color_precedence c =
     (if c = ''red'' then Some 2 else if c = ''yellow'' then Some 1
      else if c = ''green'' then Some 0 else None)"
  by (simp add: color_precedence_def)

lemma worst_step_green:
  "worst_step (''green'', 0) e =
     (if entry_color e = ''red'' then (''red'', 2)
      else if entry_color e = ''yellow'' then (''yellow'', 1) else (''green'', 0))"
  by (simp add: worst_step_def Let_def color_precedence_cases)

lemma worst_step_yellow:
  "worst_step (''yellow'', Suc 0) e =
     (if entry_color e = ''red'' then (''red'', 2) else (''yellow'', Suc 0))"
  by (simp add: worst_step_def Let_def color_precedence_cases)

lemma worst_step_red: "worst_step (''red'', 2) e = (''red'', 2)"
  by (simp add: worst_step_def Let_def color_precedence_cases)

lemma foldl_worst_step:
  "foldl worst_step (''green'', 0) entries =
     (if \<exists>e\<in>set entries. entry_color e = ''red'' then (''red'', 2)
      else if \<exists>e\<in>set entries. entry_color e = ''yellow'' then (''yellow'', 1)
      else (''green'', 0))"
proof (induction entries rule: rev_induct)
  case Nil
  show ?case by simp
next
  case (snoc e entries)
  show ?case
    by (simp add: snoc.IH worst_step_green worst_step_yellow worst_step_red)
qed

lemma overall_color_eq:
  "overall_color entries =
     (if \<exists>e\<in>set entries. entry_color e = ''red'' then ''red''
      else if \<exists>e\<in>set entries. entry_color e = ''yellow'' then ''yellow''
      else ''green'')"
  by (simp add: overall_color_def foldl_worst_step)

lemma status_of_simps:
  "status_of ''green'' = (0, ''OK'')"
  "status_of ''yellow'' = (1, ''WARN'')"
  "status_of ''red'' = (2, ''CRIT'')"
  by (simp_all add: status_of_def status_map_def)

lemma status_code_eq:
  "status_code entries =
     (if \<exists>e\<in>set entries. entry_color e = ''red'' then 2
      else if \<exists>e\<in>set entries. entry_color e = ''yellow'' then 1
      else 0)"
  by (simp add: status_code_def overall_color_eq status_of_simps)

lemma status_text_eq:
  "status_text entries =
     (if \<exists>e\<in>set entries. entry_color e = ''red'' then ''CRIT''
      else if \<exists>e\<in>set entries. entry_color e = ''yellow'' then ''WARN''
      else ''OK'')"
  by (simp add: status_text_def overall_color_eq status_of_simps)

lemma upper_simps:
  "upper ''green'' = ''GREEN''"
  "upper ''yellow'' = ''YELLOW''"
  "upper ''red'' = ''RED''"
  by code_simp+

lemma str_nat_simps:
  "str_nat 0 = ''0''"
  "str_nat (Suc 0) = ''1''"
  "str_nat 2 = ''2''"
  by (simp_all add: str_nat.simps digit_chr_def digits_def)


lemma lower_simps:
  "lower ''green'' = ''green''"
  "lower ''GREEN'' = ''green''"
  "lower ''RED'' = ''red''"
  "lower ''red'' = ''red''"
  "lower ''yellow'' = ''yellow''"
  "lower ''Yellow'' = ''yellow''"
  "lower ''blue'' = ''blue''"
  by code_simp+

lemma problems_eq:
  "problems entries =
     (if \<exists>e\<in>set entries. entry_color e = ''red'' \<or> entry_color e = ''yellow''
      then filter is_problem entries else [])"
  by (auto simp: problems_def status_code_eq)

lemma problems_Nil_iff:
  "problems entries = [] \<longleftrightarrow> status_code entries = 0"
proof (cases "\<exists>e\<in>set entries. entry_color e = ''red'' \<or> entry_color e = ''yellow''")
  case True
  then obtain e where e: "e \<in> set entries" "entry_color e = ''red'' \<or> entry_color e = ''yellow''"
    by blast
  then have "is_problem e"
    by (auto simp: is_problem_def)
  with e have "filter is_problem entries \<noteq> []"
    by (auto simp: filter_empty_conv)
  moreover from True have "status_code entries \<noteq> 0"
    by (auto simp: status_code_eq)
  ultimately show ?thesis using True by (simp add: problems_eq)
next
  case False
  then show ?thesis by (auto simp: problems_eq status_code_eq)
qed

lemma problem_lines_raw_Nil_iff:
  "problem_lines_raw entries = [] \<longleftrightarrow> status_code entries = 0"
  by (simp add: problem_lines_raw_def problems_Nil_iff)


section \<open>The severity reducer takes the maximum\<close>

text \<open>
  C1. The colour of an entry is its \<open>color\<close> attribute in lower case, \<open>green\<close> when the
  attribute is absent. If some entry of the block is red, the overall colour is \<open>red\<close> and
  the status code is 2. If some entry is yellow and none is red, the overall colour is
  \<open>yellow\<close> and the status code is 1. Neither depends on the order of the entries: any
  list \<open>others\<close> with the same entries, in any order and with any repetitions, gives the
  same result. Neither depends on the green entries: removing all of them changes nothing.
\<close>

theorem severity_is_maximum_color:
  "((\<exists>e\<in>set entries. entry_color e = ''red'') \<longrightarrow>
      overall_color entries = ''red'' \<and> status_code entries = 2) \<and>
   ((\<exists>e\<in>set entries. entry_color e = ''yellow'') \<and> (\<forall>e\<in>set entries. entry_color e \<noteq> ''red'') \<longrightarrow>
      overall_color entries = ''yellow'' \<and> status_code entries = 1) \<and>
   (set others = set entries \<longrightarrow>
      overall_color others = overall_color entries \<and> status_code others = status_code entries) \<and>
   overall_color (filter (\<lambda>e. entry_color e \<noteq> ''green'') entries) = overall_color entries \<and>
   status_code (filter (\<lambda>e. entry_color e \<noteq> ''green'') entries) = status_code entries"
proof -
  have red: "(\<exists>e\<in>set (filter (\<lambda>e. entry_color e \<noteq> ''green'') entries). entry_color e = ''red'')
      \<longleftrightarrow> (\<exists>e\<in>set entries. entry_color e = ''red'')"
    by fastforce
  have yellow: "(\<exists>e\<in>set (filter (\<lambda>e. entry_color e \<noteq> ''green'') entries). entry_color e = ''yellow'')
      \<longleftrightarrow> (\<exists>e\<in>set entries. entry_color e = ''yellow'')"
    by fastforce
  have "overall_color (filter (\<lambda>e. entry_color e \<noteq> ''green'') entries) = overall_color entries"
    unfolding overall_color_eq red yellow by (rule refl)
  moreover have "status_code (filter (\<lambda>e. entry_color e \<noteq> ''green'') entries) = status_code entries"
    unfolding status_code_eq red yellow by (rule refl)
  moreover have "set others = set entries \<longrightarrow>
      overall_color others = overall_color entries \<and> status_code others = status_code entries"
    by (simp add: overall_color_eq status_code_eq)
  moreover have "(\<exists>e\<in>set entries. entry_color e = ''red'') \<longrightarrow>
      overall_color entries = ''red'' \<and> status_code entries = 2"
    by (simp add: overall_color_eq status_code_eq)
  moreover have "(\<exists>e\<in>set entries. entry_color e = ''yellow'') \<and> (\<forall>e\<in>set entries. entry_color e \<noteq> ''red'') \<longrightarrow>
      overall_color entries = ''yellow'' \<and> status_code entries = 1"
    by (simp add: overall_color_eq status_code_eq)
  ultimately show ?thesis by blast
qed

theorem severity_is_maximum_color_witness:
  "overall_color [([''color'' \<mapsto> ''green''], ''color=green''),
                  ([''color'' \<mapsto> ''RED''], ''color=RED''),
                  ([''color'' \<mapsto> ''yellow''], ''color=yellow'')] = ''red'' \<and>
   status_code [([''color'' \<mapsto> ''green''], ''color=green''),
                ([''color'' \<mapsto> ''RED''], ''color=RED''),
                ([''color'' \<mapsto> ''yellow''], ''color=yellow'')] = 2 \<and>
   overall_color [([''color'' \<mapsto> ''yellow''], ''color=yellow''),
                  ([''color'' \<mapsto> ''RED''], ''color=RED''),
                  ([''color'' \<mapsto> ''green''], ''color=green'')] = ''red'' \<and>
   overall_color [(Map.empty, ''feature=A''),
                  ([''color'' \<mapsto> ''Yellow''], ''color=Yellow''),
                  ([''color'' \<mapsto> ''green''], ''color=green'')] = ''yellow'' \<and>
   status_code [(Map.empty, ''feature=A''),
                ([''color'' \<mapsto> ''Yellow''], ''color=Yellow''),
                ([''color'' \<mapsto> ''green''], ''color=green'')] = 1"
proof -
  let ?g = "([''color'' \<mapsto> ''green''], ''color=green'') :: entry"
  let ?r = "([''color'' \<mapsto> ''RED''], ''color=RED'') :: entry"
  let ?y = "([''color'' \<mapsto> ''yellow''], ''color=yellow'') :: entry"
  let ?Y = "([''color'' \<mapsto> ''Yellow''], ''color=Yellow'') :: entry"
  let ?a = "(Map.empty, ''feature=A'') :: entry"
  have red: "\<exists>e\<in>set [?g, ?r, ?y]. entry_color e = ''red''"
    by (simp add: entry_color_def get_default_def lower_simps)
  have perm: "set [?y, ?r, ?g] = set [?g, ?r, ?y]"
    by auto
  have yellow: "(\<exists>e\<in>set [?a, ?Y, ?g]. entry_color e = ''yellow'')
      \<and> (\<forall>e\<in>set [?a, ?Y, ?g]. entry_color e \<noteq> ''red'')"
    by (simp add: entry_color_def get_default_def lower_simps)
  have 1: "overall_color [?g, ?r, ?y] = ''red'' \<and> status_code [?g, ?r, ?y] = 2"
    using severity_is_maximum_color [of "[?g, ?r, ?y]" "[?y, ?r, ?g]"] red by blast
  have 2: "overall_color [?y, ?r, ?g] = overall_color [?g, ?r, ?y]"
    using severity_is_maximum_color [of "[?g, ?r, ?y]" "[?y, ?r, ?g]"] perm by blast
  have 3: "overall_color [?a, ?Y, ?g] = ''yellow'' \<and> status_code [?a, ?Y, ?g] = 1"
    using severity_is_maximum_color [of "[?a, ?Y, ?g]" "[]"] yellow by blast
  show ?thesis
    using 1 2 3 by simp
qed


section \<open>The fallback of the status lookup\<close>

text \<open>
  C9. Whatever the entries, the overall colour of the reducer is one of \<open>green\<close>,
  \<open>yellow\<close> and \<open>red\<close>. So the lookup in the status table finds an entry, the fallback
  (3, UNKNOWN) is not what the reporter gets, and the status code of the report is 0, 1 or 2.
\<close>

theorem status_fallback_unreachable:
  "(overall_color entries = ''green'' \<or> overall_color entries = ''yellow''
      \<or> overall_color entries = ''red'') \<and>
   (\<exists>st. status_map (overall_color entries) = Some st) \<and>
   status_of (overall_color entries) \<noteq> (3, ''UNKNOWN'') \<and>
   (status_code entries = 0 \<or> status_code entries = 1 \<or> status_code entries = 2) \<and>
   report entries timestamp =
     service_line (str_nat (status_code entries)) (final_output entries timestamp) \<and>
   (str_nat (status_code entries) = ''0'' \<or> str_nat (status_code entries) = ''1''
      \<or> str_nat (status_code entries) = ''2'')"
proof -
  have "overall_color entries = ''green'' \<or> overall_color entries = ''yellow''
      \<or> overall_color entries = ''red''"
    by (simp add: overall_color_eq)
  moreover have "\<exists>st. status_map (overall_color entries) = Some st"
    by (simp add: overall_color_eq status_map_def)
  moreover have "status_of (overall_color entries) \<noteq> (3, ''UNKNOWN'')"
    by (simp add: overall_color_eq status_of_simps)
  moreover have "status_code entries = 0 \<or> status_code entries = 1 \<or> status_code entries = 2"
    by (simp add: status_code_eq)
  moreover have "str_nat (status_code entries) = ''0'' \<or> str_nat (status_code entries) = ''1''
      \<or> str_nat (status_code entries) = ''2''"
    by (simp add: status_code_eq str_nat_simps)
  ultimately show ?thesis
    by (simp add: report_def)
qed


section \<open>Reports of healthy blocks\<close>

lemma report_status_0:
  assumes "status_code entries = 0"
  shows "report entries timestamp =
     ''0 '' @ [quote] @ ''Splunk Health'' @ [quote]
       @ '' - OK: Overall status is GREEN (Log Time: '' @ timestamp @ '')''"
proof -
  from assms have none: "\<not> (\<exists>e\<in>set entries. entry_color e = ''red'')"
    "\<not> (\<exists>e\<in>set entries. entry_color e = ''yellow'')"
    by (auto simp: status_code_eq split: if_splits)
  have "final_output entries timestamp = output_summary entries timestamp"
    using assms by (simp add: final_output_def summary_line_def problem_lines_raw_Nil_iff)
  moreover have "output_summary entries timestamp =
      ''OK: Overall status is GREEN (Log Time: '' @ timestamp @ '')''"
    using none by (simp add: output_summary_def status_text_eq overall_color_eq upper_simps)
  ultimately show ?thesis
    using assms by (simp add: report_def service_line_def str_nat_simps)
qed

text \<open>
  C4. In a block whose entries are all green (the \<open>color\<close> attribute in lower case,
  \<open>green\<close> when absent), the overall colour is \<open>green\<close>, the status code is 0, no problem
  lines are collected, the summary gains no issues, and the line printed is exactly
  \<^verbatim>\<open>0 "Splunk Health" - OK: Overall status is GREEN (Log Time: <timestamp>)\<close>.
\<close>

theorem all_green_report:
  assumes "entries \<noteq> []" and "\<forall>e\<in>set entries. entry_color e = ''green''"
  shows "overall_color entries = ''green'' \<and> status_code entries = 0 \<and>
    problem_lines_raw entries = [] \<and>
    summary_line entries timestamp = output_summary entries timestamp \<and>
    final_output entries timestamp = output_summary entries timestamp \<and>
    report entries timestamp =
      ''0 '' @ [quote] @ ''Splunk Health'' @ [quote]
        @ '' - OK: Overall status is GREEN (Log Time: '' @ timestamp @ '')''"
proof -
  from assms(2) have color: "overall_color entries = ''green''"
    by (simp add: overall_color_eq)
  from assms(2) have code: "status_code entries = 0"
    by (simp add: status_code_eq)
  then have raw: "problem_lines_raw entries = []"
    by (simp add: problem_lines_raw_Nil_iff)
  from raw have "summary_line entries timestamp = output_summary entries timestamp"
    "final_output entries timestamp = output_summary entries timestamp"
    by (simp_all add: final_output_def summary_line_def)
  with color code raw report_status_0 [OF code] show ?thesis
    by simp
qed

theorem all_green_report_witness:
  "report [([''color'' \<mapsto> ''green'', ''feature'' \<mapsto> ''A''], ''color=green feature=A''),
           ([''color'' \<mapsto> ''GREEN''], ''color=GREEN''),
           ([''feature'' \<mapsto> ''C''], ''feature=C'')]
      ''14-11-2025 10:00:00.123 +0100'' =
     ''0 '' @ [quote] @ ''Splunk Health'' @ [quote]
       @ '' - OK: Overall status is GREEN (Log Time: 14-11-2025 10:00:00.123 +0100)''"
proof -
  let ?es = "[([''color'' \<mapsto> ''green'', ''feature'' \<mapsto> ''A''], ''color=green feature=A''),
              ([''color'' \<mapsto> ''GREEN''], ''color=GREEN''),
              ([''feature'' \<mapsto> ''C''], ''feature=C'')] :: entry list"
  have ne: "?es \<noteq> []"
    by simp
  have green: "\<forall>e\<in>set ?es. entry_color e = ''green''"
    by (simp add: entry_color_def get_default_def lower_simps)
  show ?thesis
    using all_green_report [OF ne green, of "''14-11-2025 10:00:00.123 +0100''"] by simp
qed

text \<open>
  C10. In a block where no entry has one of the colours \<open>green\<close>, \<open>yellow\<close> and \<open>red\<close>,
  the status code is 0, no problems are collected and the line printed is the OK line,
  with no issues and no detail. In any block, an entry with such an unrecognized colour is
  among the problems if and only if the status code is above 0, which holds if and only if
  some entry of the block is yellow or red.
\<close>

theorem unrecognized_colors_report:
  "((\<forall>e\<in>set entries. entry_color e \<noteq> ''green'' \<and> entry_color e \<noteq> ''yellow''
        \<and> entry_color e \<noteq> ''red'') \<longrightarrow>
      status_code entries = 0 \<and> problems entries = [] \<and> problem_lines_raw entries = [] \<and>
      final_output entries timestamp = output_summary entries timestamp \<and>
      report entries timestamp =
        ''0 '' @ [quote] @ ''Splunk Health'' @ [quote]
          @ '' - OK: Overall status is GREEN (Log Time: '' @ timestamp @ '')'') \<and>
   (u \<in> set entries \<and> entry_color u \<noteq> ''green'' \<and> entry_color u \<noteq> ''yellow''
        \<and> entry_color u \<noteq> ''red'' \<longrightarrow>
      (u \<in> set (problems entries) \<longleftrightarrow> status_code entries > 0)) \<and>
   (status_code entries > 0 \<longleftrightarrow>
      (\<exists>e\<in>set entries. entry_color e = ''yellow'' \<or> entry_color e = ''red''))"
proof -
  have a: "status_code entries > 0 \<longleftrightarrow>
      (\<exists>e\<in>set entries. entry_color e = ''yellow'' \<or> entry_color e = ''red'')"
    by (auto simp: status_code_eq)
  have b: "u \<in> set entries \<and> entry_color u \<noteq> ''green'' \<and> entry_color u \<noteq> ''yellow''
        \<and> entry_color u \<noteq> ''red'' \<longrightarrow>
      (u \<in> set (problems entries) \<longleftrightarrow> status_code entries > 0)"
    by (simp add: problems_def is_problem_def)
  have c: "status_code entries = 0 \<and> problems entries = [] \<and> problem_lines_raw entries = [] \<and>
      final_output entries timestamp = output_summary entries timestamp \<and>
      report entries timestamp =
        ''0 '' @ [quote] @ ''Splunk Health'' @ [quote]
          @ '' - OK: Overall status is GREEN (Log Time: '' @ timestamp @ '')''"
    if "\<forall>e\<in>set entries. entry_color e \<noteq> ''green'' \<and> entry_color e \<noteq> ''yellow''
        \<and> entry_color e \<noteq> ''red''"
  proof -
    from that have code: "status_code entries = 0"
      by (simp add: status_code_eq)
    then have "problems entries = []" "problem_lines_raw entries = []"
      by (simp_all add: problems_Nil_iff problem_lines_raw_Nil_iff)
    moreover from this have "final_output entries timestamp = output_summary entries timestamp"
      by (simp add: final_output_def summary_line_def)
    ultimately show ?thesis
      using code report_status_0 [OF code] by simp
  qed
  from a b c show ?thesis
    by blast
qed

theorem unrecognized_colors_report_witness:
  "report [([''color'' \<mapsto> ''blue''], ''color=blue''),
           ([''color'' \<mapsto> ''Purple''], ''color=Purple'')]
      ''14-11-2025 10:00:00.123 +0100'' =
     ''0 '' @ [quote] @ ''Splunk Health'' @ [quote]
       @ '' - OK: Overall status is GREEN (Log Time: 14-11-2025 10:00:00.123 +0100)'' \<and>
   ([''color'' \<mapsto> ''blue''], ''color=blue'')
     \<in> set (problems [([''color'' \<mapsto> ''blue''], ''color=blue''),
                        ([''color'' \<mapsto> ''red''], ''color=red'')])"
proof -
  let ?b = "([''color'' \<mapsto> ''blue''], ''color=blue'') :: entry"
  let ?p = "([''color'' \<mapsto> ''Purple''], ''color=Purple'') :: entry"
  let ?r = "([''color'' \<mapsto> ''red''], ''color=red'') :: entry"
  have lp: "lower ''Purple'' = ''purple''"
    by code_simp
  have h1: "\<forall>e\<in>set [?b, ?p]. entry_color e \<noteq> ''green'' \<and> entry_color e \<noteq> ''yellow''
        \<and> entry_color e \<noteq> ''red''"
    by (simp add: entry_color_def get_default_def lower_simps lp)
  have h2: "?b \<in> set [?b, ?r] \<and> entry_color ?b \<noteq> ''green'' \<and> entry_color ?b \<noteq> ''yellow''
        \<and> entry_color ?b \<noteq> ''red''"
    by (simp add: entry_color_def get_default_def lower_simps)
  have h3: "\<exists>e\<in>set [?b, ?r]. entry_color e = ''yellow'' \<or> entry_color e = ''red''"
    by (simp add: entry_color_def get_default_def lower_simps)
  have 1: "report [?b, ?p] ''14-11-2025 10:00:00.123 +0100'' =
     ''0 '' @ [quote] @ ''Splunk Health'' @ [quote]
       @ '' - OK: Overall status is GREEN (Log Time: '' @ ''14-11-2025 10:00:00.123 +0100'' @ '')''"
    using unrecognized_colors_report [of "[?b, ?p]" "''14-11-2025 10:00:00.123 +0100''" ?b] h1
    by blast
  have 2: "?b \<in> set (problems [?b, ?r])"
  proof -
    note t = unrecognized_colors_report [of "[?b, ?r]" "[]" ?b]
    have pos: "status_code [?b, ?r] > 0"
      by (rule t [THEN conjunct2, THEN conjunct2, THEN iffD2, OF h3])
    show ?thesis
      by (rule t [THEN conjunct2, THEN conjunct1, THEN mp, OF h2, THEN iffD2, OF pos])
  qed
  show ?thesis
    using 1 2 by simp
qed


section \<open>Reports of unhealthy blocks\<close>

lemma is_problem_color:
  assumes "is_problem e"
  shows "\<exists>c. fst e ''color'' = Some c \<and> get_default (fst e) ''color'' dflt = c"
proof (cases "fst e ''color''")
  case None
  with assms show ?thesis
    by (simp add: is_problem_def entry_color_def get_default_def lower_simps)
next
  case (Some c)
  then show ?thesis
    by (simp add: get_default_def)
qed

lemma problems_pos:
  "status_code entries > 0 \<Longrightarrow> problems entries = filter is_problem entries"
  by (simp add: problems_def)

text \<open>
  C5. When the status code is above 0 and some entry is a problem (its colour, the \<open>color\<close>
  attribute in lower case with default \<open>green\<close>, is not \<open>green\<close>), the summary line is the
  plain summary followed by the issues section. The section is \<^verbatim>\<open> (Issues: \<close>, then the items
  of the first two problems at most, joined by a comma and a space, then the three
  characters \<^verbatim>\<open>...\<close> whatever the number of problems, then the closing parenthesis. The
  item of a problem is its \<open>color\<close> attribute in upper case between brackets, a space and
  a name; the upper case is \<open>upper\<close> of the attribute when that holds neither the micro
  sign nor the y with diaeresis, the two characters whose upper case is no 8-bit
  character. The name is the \<open>feature\<close> attribute unless that is absent or empty, then
  the \<open>node_path\<close> attribute unless that is absent or empty, then \<open>Component\<close>.
\<close>

theorem issues_section_format:
  assumes "status_code entries > 0" and "\<exists>e\<in>set entries. is_problem e"
  shows "summary_line entries timestamp = output_summary entries timestamp @ issues_section entries \<and>
    issues_section entries =
      '' (Issues: '' @ join '', '' (map problem_item (take 2 (filter is_problem entries))) @ ''...)'' \<and>
    (\<forall>e\<in>set (filter is_problem entries). \<exists>c u. fst e ''color'' = Some c \<and>
        problem_item e = ''['' @ u @ ''] '' @ display_name (fst e) \<and>
        (upper_in_range c \<longrightarrow> u = upper c)) \<and>
    (\<forall>f. d ''feature'' = Some f \<and> f \<noteq> [] \<longrightarrow> display_name d = f) \<and>
    (\<forall>n. (d ''feature'' = None \<or> d ''feature'' = Some []) \<and> d ''node_path'' = Some n \<and> n \<noteq> []
        \<longrightarrow> display_name d = n) \<and>
    ((d ''feature'' = None \<or> d ''feature'' = Some [])
        \<and> (d ''node_path'' = None \<or> d ''node_path'' = Some []) \<longrightarrow> display_name d = ''Component'')"
proof -
  from assms(1) have ps: "problems entries = filter is_problem entries"
    by (rule problems_pos)
  from assms(1) have "problem_lines_raw entries \<noteq> []"
    by (simp add: problem_lines_raw_Nil_iff)
  then have 1: "summary_line entries timestamp = output_summary entries timestamp @ issues_section entries"
    by (simp add: summary_line_def)
  have 2: "issues_section entries =
      '' (Issues: '' @ join '', '' (map problem_item (take 2 (filter is_problem entries))) @ ''...)''"
    by (simp add: issues_section_def problems_summary_list_def ps take_map)
  have 3: "\<forall>e\<in>set (filter is_problem entries). \<exists>c u. fst e ''color'' = Some c \<and>
        problem_item e = ''['' @ u @ ''] '' @ display_name (fst e) \<and>
        (upper_in_range c \<longrightarrow> u = upper c)"
  proof
    fix e assume "e \<in> set (filter is_problem entries)"
    then have "is_problem e" by simp
    from is_problem_color [OF this, of "''N/A''"] obtain c
      where c: "fst e ''color'' = Some c" "get_default (fst e) ''color'' ''N/A'' = c"
      by blast
    then have "problem_item e = ''['' @ upper c @ ''] '' @ display_name (fst e)"
      by (simp add: problem_item_def)
    with c(1) show "\<exists>c u. fst e ''color'' = Some c \<and>
        problem_item e = ''['' @ u @ ''] '' @ display_name (fst e) \<and>
        (upper_in_range c \<longrightarrow> u = upper c)"
      by blast
  qed
  have 4: "\<forall>f. d ''feature'' = Some f \<and> f \<noteq> [] \<longrightarrow> display_name d = f"
    by (auto simp: display_name_def split: option.splits list.splits)
  have 5: "\<forall>n. (d ''feature'' = None \<or> d ''feature'' = Some []) \<and> d ''node_path'' = Some n \<and> n \<noteq> []
        \<longrightarrow> display_name d = n"
    by (auto simp: display_name_def split: option.splits list.splits)
  have 6: "(d ''feature'' = None \<or> d ''feature'' = Some [])
        \<and> (d ''node_path'' = None \<or> d ''node_path'' = Some []) \<longrightarrow> display_name d = ''Component''"
    by (auto simp: display_name_def split: option.splits list.splits)
  from 1 2 3 4 5 6 show ?thesis
    by simp
qed

theorem issues_section_format_witness:
  "summary_line
     [([''color'' \<mapsto> ''green'', ''feature'' \<mapsto> ''A''], ''color=green feature=A''),
      ([''color'' \<mapsto> ''red'', ''feature'' \<mapsto> ''B''], ''color=red feature=B''),
      ([''color'' \<mapsto> ''yellow'', ''feature'' \<mapsto> [], ''node_path'' \<mapsto> ''C''],
        ''color=yellow feature='' @ [quote, quote] @ '' node_path=C''),
      ([''color'' \<mapsto> ''blue''], ''color=blue'')]
     ''14-11-2025 10:00:00.123 +0100'' =
     ''CRIT: Overall status is RED (Log Time: 14-11-2025 10:00:00.123 +0100) (Issues: [RED] B, [YELLOW] C...)'' \<and>
   summary_line [([''color'' \<mapsto> ''Yellow''], ''color=Yellow'')] ''14-11-2025 10:00:00.123 +0100'' =
     ''WARN: Overall status is YELLOW (Log Time: 14-11-2025 10:00:00.123 +0100) (Issues: [YELLOW] Component...)'' \<and>
   issues_section [([''color'' \<mapsto> ''Yellow''], ''color=Yellow''),
                   ([''color'' \<mapsto> strasse, ''feature'' \<mapsto> ''S''], ''color='' @ strasse @ '' feature=S'')] =
     '' (Issues: [YELLOW] Component, [STRASSE] S...)''"
proof -
  let ?s = "([''color'' \<mapsto> strasse, ''feature'' \<mapsto> ''S''], ''color='' @ strasse @ '' feature=S'') :: entry"
  let ?a = "([''color'' \<mapsto> ''green'', ''feature'' \<mapsto> ''A''], ''color=green feature=A'') :: entry"
  let ?b = "([''color'' \<mapsto> ''red'', ''feature'' \<mapsto> ''B''], ''color=red feature=B'') :: entry"
  let ?c = "([''color'' \<mapsto> ''yellow'', ''feature'' \<mapsto> [], ''node_path'' \<mapsto> ''C''],
        ''color=yellow feature='' @ [quote, quote] @ '' node_path=C'') :: entry"
  let ?u = "([''color'' \<mapsto> ''blue''], ''color=blue'') :: entry"
  let ?y = "([''color'' \<mapsto> ''Yellow''], ''color=Yellow'') :: entry"
  let ?ts = "''14-11-2025 10:00:00.123 +0100''"
  note ev = entry_color_def get_default_def lower_simps is_problem_def
  have uY: "upper ''Yellow'' = ''YELLOW''"
    by code_simp
  have uS: "upper strasse = ''STRASSE''" "upper_in_range strasse"
    by code_simp+
  have lS: "lower strasse \<noteq> ''green''" "lower strasse \<noteq> ''yellow''" "lower strasse \<noteq> ''red''"
    by code_simp+
  have code: "status_code [?a, ?b, ?c, ?u] > 0" "status_code [?y] > 0" "status_code [?y, ?s] > 0"
    by (simp_all add: status_code_eq ev)
  have prob: "\<exists>e\<in>set [?a, ?b, ?c, ?u]. is_problem e" "\<exists>e\<in>set [?y]. is_problem e"
    "\<exists>e\<in>set [?y, ?s]. is_problem e"
    by (simp_all add: ev)
  have flt: "filter is_problem [?a, ?b, ?c, ?u] = [?b, ?c, ?u]" "filter is_problem [?y] = [?y]"
    "filter is_problem [?y, ?s] = [?y, ?s]"
    by (simp_all add: ev lS)
  have items: "problem_item ?b = ''[RED] B''" "problem_item ?c = ''[YELLOW] C''"
    "problem_item ?y = ''[YELLOW] Component''"
    by (simp_all add: problem_item_def display_name_def get_default_def upper_simps uY)
  note t3 = issues_section_format [OF code(3) prob(3), of ?ts Map.empty]
  have s_in: "?s \<in> set (filter is_problem [?y, ?s])"
    unfolding flt by simp
  from t3 [THEN conjunct2, THEN conjunct2, THEN conjunct1, THEN bspec, OF s_in]
  obtain c u where cu: "fst ?s ''color'' = Some c"
    "problem_item ?s = ''['' @ u @ ''] '' @ display_name (fst ?s)"
    "upper_in_range c \<longrightarrow> u = upper c"
    by blast
  from cu(1) have "c = strasse"
    by simp
  with cu(3) uS have "u = ''STRASSE''"
    by simp
  with cu(2) have item_s: "problem_item ?s = ''[STRASSE] S''"
    by (simp add: display_name_def)
  have 3: "issues_section [?y, ?s] = '' (Issues: [YELLOW] Component, [STRASSE] S...)''"
    unfolding t3 [THEN conjunct2, THEN conjunct1] flt
    by (simp only: numeral_2_eq_2 take_Suc_Cons take_0 list.map items item_s) simp
  have sums: "output_summary [?a, ?b, ?c, ?u] ?ts =
      ''CRIT: Overall status is RED (Log Time: 14-11-2025 10:00:00.123 +0100)''"
    "output_summary [?y] ?ts = ''WARN: Overall status is YELLOW (Log Time: 14-11-2025 10:00:00.123 +0100)''"
    by (simp_all add: output_summary_def status_text_eq overall_color_eq upper_simps ev)
  note t1 = issues_section_format [OF code(1) prob(1), of ?ts Map.empty]
  note t2 = issues_section_format [OF code(2) prob(2), of ?ts Map.empty]
  have 1: "summary_line [?a, ?b, ?c, ?u] ?ts =
      ''CRIT: Overall status is RED (Log Time: 14-11-2025 10:00:00.123 +0100) (Issues: [RED] B, [YELLOW] C...)''"
    unfolding t1 [THEN conjunct1] t1 [THEN conjunct2, THEN conjunct1] flt sums
    by (simp only: numeral_2_eq_2 take_Suc_Cons take_0 list.map items) simp
  have 2: "summary_line [?y] ?ts =
      ''WARN: Overall status is YELLOW (Log Time: 14-11-2025 10:00:00.123 +0100) (Issues: [YELLOW] Component...)''"
    unfolding t2 [THEN conjunct1] t2 [THEN conjunct2, THEN conjunct1] flt sums
    by (simp only: numeral_2_eq_2 take_Suc_Cons take.simps(1) list.map items) simp
  from 1 2 3 show ?thesis
    by simp
qed


section \<open>Failure of the tail run\<close>

text \<open>
  C3. When the tail run ends with a return code other than 0 and the text \<open>stderr\<close> on
  standard error, the line printed is
  \<^verbatim>\<open>3 "Splunk Health" - UNKNOWN: Error running 'tail' command: \<close> followed by \<open>stderr\<close>:
  status code 3, the quoted service name, and a body that starts with \<^verbatim>\<open>UNKNOWN: \<close> before
  the message of the tail error.
\<close>

theorem tail_failure_line:
  assumes "returncode \<noteq> 0"
  shows "main (Completed returncode stdout stderr) =
    ''3 '' @ [quote] @ ''Splunk Health'' @ [quote] @ '' - UNKNOWN: Error running ''
      @ [apostrophe] @ ''tail'' @ [apostrophe] @ '' command: '' @ stderr"
  using assms
  by (simp add: main_def get_latest_log_block_def unknown_line_def service_line_def)

theorem tail_failure_line_witness:
  "main (Completed 1 [] ''tail: cannot open file'') =
    ''3 '' @ [quote] @ ''Splunk Health'' @ [quote] @ '' - UNKNOWN: Error running ''
      @ [apostrophe] @ ''tail'' @ [apostrophe] @ '' command: tail: cannot open file''"
proof -
  have "(1::int) \<noteq> 0"
    by simp
  from tail_failure_line [OF this, of "[]" "''tail: cannot open file''"] show ?thesis
    by simp
qed

text \<open>
  The line without \<^verbatim>\<open>UNKNOWN: \<close> is not what is printed: for return code 1 and the error
  text \<^verbatim>\<open>tail: cannot open file\<close> the output differs from
  \<^verbatim>\<open>3 "Splunk Health" - Error running 'tail' command: tail: cannot open file\<close>.
\<close>

theorem tail_failure_line_counterexample:
  "main (Completed 1 [] ''tail: cannot open file'') \<noteq>
    ''3 '' @ [quote] @ ''Splunk Health'' @ [quote] @ '' - Error running ''
      @ [apostrophe] @ ''tail'' @ [apostrophe] @ '' command: tail: cannot open file''"
  by (simp add: main_def get_latest_log_block_def unknown_line_def service_line_def)


section \<open>Block selection\<close>

lemma startswith_iff: "startswith s p \<longleftrightarrow> (\<exists>r. s = p @ r)"
  by (induction s p rule: startswith.induct) auto

lemma startswith_append [simp]: "startswith (p @ r) p"
  by (simp add: startswith_iff)

lemma match_prefix_startswith:
  "match_prefix ks s = Some p \<Longrightarrow> startswith s p"
  by (induction ks s arbitrary: p rule: match_prefix.induct) (auto split: if_splits)

lemma match_prefix_same:
  "match_prefix ks s = Some p \<Longrightarrow> startswith l p \<Longrightarrow> match_prefix ks l = Some p"
proof (induction ks s arbitrary: p l rule: match_prefix.induct)
  case (1 s)
  then show ?case by simp
next
  case (2 k ks)
  then show ?case by simp
next
  case (3 k ks c cs)
  from "3.prems"(1) obtain q where k: "matches_cls k c" and q: "match_prefix ks cs = Some q"
    and p: "p = c # q"
    by (auto split: if_splits)
  from "3.prems"(2) p obtain r where l: "l = c # q @ r"
    by (auto simp: startswith_iff)
  from "3.IH" [OF k q, of "q @ r"] have "match_prefix ks (q @ r) = Some q"
    by simp
  with k l p show ?case by simp
qed

lemma collect_block_eq:
  "collect_block p ls acc = rev (takeWhile (\<lambda>l. startswith l p) ls) @ acc"
  by (induction ls arbitrary: acc) auto

text \<open>
  C2. Take a non-empty sequence of filtered lines whose last line starts with a timestamp
  \<open>p\<close>. Then a block is selected, with \<open>p\<close> as its timestamp. The lines are some older
  lines followed by the block, so the block is a suffix of them, in their order. The block
  is not empty, every line of it starts with \<open>p\<close> and has \<open>p\<close> as its timestamp, and the
  last of the older lines, if there is one, does not start with \<open>p\<close>: going backward, the
  block ends at the first line that does not match, and no line before that one is in it.
\<close>

theorem latest_block_is_trailing_run:
  assumes "lines \<noteq> []" and "match_prefix timestamp_regex (last lines) = Some p"
  shows "\<exists>older block. select_block lines = Inr (block, p) \<and> lines = older @ block \<and>
    block \<noteq> [] \<and>
    (\<forall>l\<in>set block. startswith l p \<and> match_prefix timestamp_regex l = Some p) \<and>
    (older = [] \<or> \<not> startswith (last older) p) \<and>
    block = rev (takeWhile (\<lambda>l. startswith l p) (rev lines))"
proof -
  let ?P = "\<lambda>l. startswith l p"
  let ?block = "rev (takeWhile ?P (rev lines))"
  let ?older = "rev (dropWhile ?P (rev lines))"
  have sel: "select_block lines = Inr (?block, p)"
    using assms by (simp add: select_block_def collect_block_eq)
  have app: "lines = ?older @ ?block"
  proof -
    have "?older @ ?block = rev (takeWhile ?P (rev lines) @ dropWhile ?P (rev lines))"
      by (simp only: rev_append)
    also have "\<dots> = lines"
      by simp
    finally show ?thesis
      by (rule sym)
  qed
  have all: "\<forall>l\<in>set ?block. startswith l p \<and> match_prefix timestamp_regex l = Some p"
  proof
    fix l assume "l \<in> set ?block"
    then have "startswith l p"
      by (auto dest: set_takeWhileD)
    with match_prefix_same [OF assms(2)]
    show "startswith l p \<and> match_prefix timestamp_regex l = Some p"
      by simp
  qed
  have lastp: "?P (last lines)"
    using assms(2) by (rule match_prefix_startswith)
  from assms(1) obtain xs x where lx: "lines = xs @ [x]"
    by (metis append_butlast_last_id)
  from lastp lx have "?P x"
    by simp
  then have "takeWhile ?P (rev (xs @ [x])) \<noteq> []"
    by simp
  then have ne: "?block \<noteq> []"
    by (simp add: lx)
  have stop: "?older = [] \<or> \<not> startswith (last ?older) p"
  proof (cases "dropWhile ?P (rev lines)")
    case Nil
    then show ?thesis by simp
  next
    case (Cons x xs)
    then have "\<not> ?P (hd (dropWhile ?P (rev lines)))"
      by (metis hd_dropWhile list.distinct(1))
    with Cons show ?thesis
      by (simp add: last_rev)
  qed
  from sel app ne all stop show ?thesis
    by blast
qed

theorem latest_block_is_trailing_run_witness:
  "select_block example_lines = Inr (example_block, latest_timestamp)"
proof -
  have ne: "example_lines \<noteq> []"
    by (simp add: example_lines_def)
  have ts: "match_prefix timestamp_regex (last example_lines) = Some latest_timestamp"
    by code_simp
  have run: "rev (takeWhile (\<lambda>l. startswith l latest_timestamp) (rev example_lines)) = example_block"
    by code_simp
  from latest_block_is_trailing_run [OF ne ts] obtain older block
    where "select_block example_lines = Inr (block, latest_timestamp)"
      and "example_lines = older @ block"
      and "block = rev (takeWhile (\<lambda>l. startswith l latest_timestamp) (rev example_lines))"
    by blast
  with run show ?thesis
    by (simp only:)
qed


section \<open>Attribute parsing\<close>

lemma not_word_equals: "\<not> is_word (CHR ''='')"
  by (simp add: is_word_def lower_letters_def upper_letters_def digits_def)

lemma takeWhile_key:
  "\<forall>c\<in>set key. is_word c \<Longrightarrow> takeWhile is_word (key @ CHR ''='' # r) = key"
  by (simp add: not_word_equals)

lemma dropWhile_key:
  "\<forall>c\<in>set key. is_word c \<Longrightarrow> dropWhile is_word (key @ CHR ''='' # r) = CHR ''='' # r"
  by (simp add: not_word_equals)

lemma match_value_quoted:
  assumes "quote \<notin> set v"
  shows "match_value (quote # v @ quote # rest) = Some (v, rest)"
proof -
  from assms have "\<forall>c\<in>set v. not_quote c"
    by (auto simp: not_quote_def)
  then have "takeWhile not_quote (v @ quote # rest) = v"
    "dropWhile not_quote (v @ quote # rest) = quote # rest"
    by (simp_all add: not_quote_def)
  then show ?thesis
    by (simp add: match_value_def)
qed

lemma match_value_unquoted:
  assumes "v \<noteq> []" and "\<forall>c\<in>set v. unquoted c" and "rest = [] \<or> \<not> unquoted (hd rest)"
  shows "match_value (v @ rest) = Some (v, rest)"
proof -
  from assms(3) have "takeWhile unquoted rest = []" "dropWhile unquoted rest = rest"
    by (cases rest; simp)+
  with assms(2) have tk: "takeWhile unquoted (v @ rest) = v" "dropWhile unquoted (v @ rest) = rest"
    by simp_all
  from assms(1) obtain q t where v: "v = q # t"
    by (cases v) auto
  with assms(2) have q: "unquoted q" "q \<noteq> quote"
    by (auto simp: unquoted_def)
  have "match_value (q # t @ rest) = Some (takeWhile unquoted (q # t @ rest), dropWhile unquoted (q # t @ rest))"
    using q by (simp add: match_value_def)
  with tk v show ?thesis
    by simp
qed

lemma find_attributes_match:
  assumes "key \<noteq> []" and "\<forall>c\<in>set key. is_word c" and "match_value r = Some (v, rest)"
  shows "find_attributes (key @ CHR ''='' # r) = (key, v) # find_attributes rest"
proof -
  from assms(1) obtain c cs where s: "key @ CHR ''='' # r = c # cs"
    by (cases key) auto
  from assms(2) have tk: "takeWhile is_word (key @ CHR ''='' # r) = key"
    by (rule takeWhile_key)
  from assms(2) have dk: "dropWhile is_word (key @ CHR ''='' # r) = CHR ''='' # r"
    by (rule dropWhile_key)
  have "match_attribute (key @ CHR ''='' # r) = Some (key, v, rest)"
    unfolding match_attribute_def Let_def tk dk using assms(1,3) by simp
  then show ?thesis
    unfolding s by simp
qed

text \<open>
  C7, as the script has it. The string
  \<^verbatim>\<open>color=red feature="Indexing Pipeline" count=3\<close> parses to the mapping
  of \<open>color\<close> to \<open>red\<close>, \<open>feature\<close> to \<open>Indexing Pipeline\<close> and \<open>count\<close> to \<open>3\<close>, and a log
  line that carries it behind the separator gives the entry of that mapping and the
  string itself, unchanged. In general, at a key (a non-empty run of key characters)
  followed by \<^verbatim>\<open>=\<close>, a value between double quotes gives the text between the quotes as it
  is, whatever characters other than the quote it holds; and a value without quotes gives
  the run of characters that are neither white space nor a quote, up to the end of the
  string, the next white space or the next quote. The scan goes on behind the value.
\<close>

theorem attribute_parsing_round_trip:
  "parse_attributes indexing_raw =
     [''color'' \<mapsto> ''red'', ''feature'' \<mapsto> ''Indexing Pipeline'', ''count'' \<mapsto> ''3''] \<and>
   entries_with_raw [log_line latest_timestamp indexing_raw] =
     [(parse_attributes indexing_raw, indexing_raw)] \<and>
   (key \<noteq> [] \<and> (\<forall>c\<in>set key. is_word c) \<and> quote \<notin> set v \<longrightarrow>
      find_attributes (key @ ''='' @ [quote] @ v @ [quote] @ rest) = (key, v) # find_attributes rest) \<and>
   (key \<noteq> [] \<and> (\<forall>c\<in>set key. is_word c) \<and> w \<noteq> []
      \<and> (\<forall>c\<in>set w. c \<noteq> quote \<and> \<not> is_space c)
      \<and> (rest = [] \<or> is_space (hd rest) \<or> hd rest = quote) \<longrightarrow>
      find_attributes (key @ ''='' @ w @ rest) = (key, w) # find_attributes rest)"
proof -
  have "find_attributes indexing_raw =
      [(''color'', ''red''), (''feature'', ''Indexing Pipeline''), (''count'', ''3'')]"
    by code_simp
  then have 1: "parse_attributes indexing_raw =
     [''color'' \<mapsto> ''red'', ''feature'' \<mapsto> ''Indexing Pipeline'', ''count'' \<mapsto> ''3'']"
    by (simp add: parse_attributes_def)
  have sp: "split (log_line latest_timestamp indexing_raw) separator =
      [latest_timestamp @ '' INFO  '', indexing_raw]"
    by code_simp
  have st: "strip indexing_raw = indexing_raw"
    by code_simp
  have 2: "entries_with_raw [log_line latest_timestamp indexing_raw] =
     [(parse_attributes indexing_raw, indexing_raw)]"
    by (simp add: sp st)
  have 3: "find_attributes (key @ ''='' @ [quote] @ v @ [quote] @ rest) = (key, v) # find_attributes rest"
    if "key \<noteq> []" "\<forall>c\<in>set key. is_word c" "quote \<notin> set v"
    using find_attributes_match [OF that(1,2) match_value_quoted [OF that(3)]] by simp
  have 4: "find_attributes (key @ ''='' @ w @ rest) = (key, w) # find_attributes rest"
    if "key \<noteq> []" "\<forall>c\<in>set key. is_word c" "w \<noteq> []"
      "\<forall>c\<in>set w. c \<noteq> quote \<and> \<not> is_space c" "rest = [] \<or> is_space (hd rest) \<or> hd rest = quote"
  proof -
    from that(4) have a: "\<forall>c\<in>set w. unquoted c"
      by (simp add: unquoted_def)
    from that(5) have b: "rest = [] \<or> \<not> unquoted (hd rest)"
      by (auto simp: unquoted_def)
    from find_attributes_match [OF that(1,2) match_value_unquoted [OF that(3) a b]]
    show ?thesis by simp
  qed
  from 1 2 3 4 show ?thesis
    by blast
qed

theorem attribute_parsing_round_trip_witness:
  "find_attributes (''feature'' @ ''='' @ [quote] @ ''Indexing Pipeline'' @ [quote] @ '' count=3'') =
     (''feature'', ''Indexing Pipeline'') # find_attributes '' count=3'' \<and>
   find_attributes (''count'' @ ''='' @ ''3'' @ []) = (''count'', ''3'') # find_attributes [] \<and>
   find_attributes (''color'' @ ''='' @ ''red'' @ (CHR 0xA0 # ''feature=B'')) =
     (''color'', ''red'') # find_attributes (CHR 0xA0 # ''feature=B'')"
proof -
  have k3: "''color'' \<noteq> [] \<and> (\<forall>c\<in>set ''color''. is_word c) \<and> ''red'' \<noteq> []
      \<and> (\<forall>c\<in>set ''red''. c \<noteq> quote \<and> \<not> is_space c)
      \<and> (CHR 0xA0 # ''feature=B'' = [] \<or> is_space (hd (CHR 0xA0 # ''feature=B''))
          \<or> hd (CHR 0xA0 # ''feature=B'') = quote)"
    by (simp add: is_word_def lower_letters_def upper_letters_def digits_def quote_def is_space_def)
  note t = attribute_parsing_round_trip
  have k1: "''feature'' \<noteq> [] \<and> (\<forall>c\<in>set ''feature''. is_word c) \<and> quote \<notin> set ''Indexing Pipeline''"
    by (simp add: is_word_def lower_letters_def upper_letters_def digits_def quote_def)
  have k2: "''count'' \<noteq> [] \<and> (\<forall>c\<in>set ''count''. is_word c) \<and> ''3'' \<noteq> []
      \<and> (\<forall>c\<in>set ''3''. c \<noteq> quote \<and> \<not> is_space c)
      \<and> ([] = [] \<or> is_space (hd []) \<or> hd [] = quote)"
    by (simp add: is_word_def lower_letters_def upper_letters_def digits_def quote_def is_space_def)
  have 1: "find_attributes (''feature'' @ ''='' @ [quote] @ ''Indexing Pipeline'' @ [quote] @ '' count=3'') =
     (''feature'', ''Indexing Pipeline'') # find_attributes '' count=3''"
    by (rule t [of "''feature''" "''Indexing Pipeline''" "'' count=3''", THEN conjunct2, THEN conjunct2,
          THEN conjunct1, THEN mp, OF k1])
  have 2: "find_attributes (''count'' @ ''='' @ ''3'' @ []) = (''count'', ''3'') # find_attributes []"
    by (rule t [of "''count''" _ "[]" "''3''", THEN conjunct2, THEN conjunct2,
          THEN conjunct2, THEN mp, OF k2])
  have 3: "find_attributes (''color'' @ ''='' @ ''red'' @ (CHR 0xA0 # ''feature=B'')) =
     (''color'', ''red'') # find_attributes (CHR 0xA0 # ''feature=B'')"
    by (rule t [of "''color''" _ "CHR 0xA0 # ''feature=B''" "''red''", THEN conjunct2, THEN conjunct2,
          THEN conjunct2, THEN mp, OF k3])
  from 1 2 3 show ?thesis
    by (intro conjI)
qed

text \<open>
  A value without quotes is not the whole token of non-white-space characters: in
  \<^verbatim>\<open>a=x"y"\<close> the token after \<^verbatim>\<open>=\<close> is \<^verbatim>\<open>x"y"\<close>, and the value parsed for \<open>a\<close> is \<open>x\<close>.
\<close>

theorem attribute_parsing_round_trip_counterexample:
  "parse_attributes mixed_token_raw ''a'' = Some ''x'' \<and>
   parse_attributes mixed_token_raw ''a'' \<noteq>
     Some (non_space_token (after_first ''='' mixed_token_raw))"
proof -
  have "find_attributes mixed_token_raw = [(''a'', ''x'')]"
    by code_simp
  then have 1: "parse_attributes mixed_token_raw ''a'' = Some ''x''"
    by (simp add: parse_attributes_def)
  have "non_space_token (after_first ''='' mixed_token_raw) = ''x'' @ [quote] @ ''y'' @ [quote]"
    by code_simp
  with 1 show ?thesis
    by simp
qed


section \<open>The raw attribute string of a line\<close>

lemma split_from_absent:
  "\<not> contains s sep \<Longrightarrow> split_from sep cur s = [rev cur @ s]"
  by (induction s arbitrary: cur) auto

lemma split_from_present:
  "sep \<noteq> [] \<Longrightarrow> contains s sep \<Longrightarrow>
   split_from sep cur s = (rev cur @ before_first sep s) # split_from sep [] (after_first sep s)"
  by (induction s arbitrary: cur) auto

lemma before_first_absent: "\<not> contains s sep \<Longrightarrow> before_first sep s = s"
  by (induction s) auto

lemma split_from_head:
  assumes "sep \<noteq> []"
  shows "\<exists>ps. split_from sep cur s = (rev cur @ before_first sep s) # ps"
proof (cases "contains s sep")
  case True
  with assms show ?thesis
    by (simp add: split_from_present)
next
  case False
  then show ?thesis
    by (simp add: split_from_absent before_first_absent)
qed

lemma around_first:
  "contains s sep \<Longrightarrow> s = before_first sep s @ sep @ after_first sep s"
proof (induction s)
  case Nil
  then show ?case by simp
next
  case (Cons c cs)
  show ?case
  proof (cases "startswith (c # cs) sep")
    case True
    then obtain r where r: "c # cs = sep @ r"
      by (auto simp: startswith_iff)
    from True have b: "before_first sep (c # cs) = []"
      and a: "after_first sep (c # cs) = drop (length sep) (c # cs)"
      by simp_all
    have d: "drop (length sep) (c # cs) = r"
      unfolding r by simp
    show ?thesis
      unfolding b a d using r by simp
  next
    case False
    with Cons show ?thesis
      by simp
  qed
qed

lemma separator_not_Nil: "separator \<noteq> []"
  by (simp add: separator_def)

lemma strip_around:
  "\<exists>pre post. t = pre @ strip t @ post \<and> (\<forall>c\<in>set pre. is_space c) \<and> (\<forall>c\<in>set post. is_space c) \<and>
     (strip t = [] \<or> \<not> is_space (hd (strip t)) \<and> \<not> is_space (last (strip t)))"
proof -
  let ?pre = "takeWhile is_space t"
  let ?mid = "dropWhile is_space t"
  let ?post = "rev (takeWhile is_space (rev ?mid))"
  have st: "strip t = rev (dropWhile is_space (rev ?mid))"
    by (simp add: strip_def)
  have "strip t @ ?post = rev (takeWhile is_space (rev ?mid) @ dropWhile is_space (rev ?mid))"
    unfolding st by (simp only: rev_append)
  also have "\<dots> = ?mid"
    by simp
  finally have mid: "?mid = strip t @ ?post"
    by (rule sym)
  have "t = ?pre @ ?mid"
    by simp
  with mid have 1: "t = ?pre @ strip t @ ?post"
    by simp
  have 2: "\<forall>c\<in>set ?pre. is_space c"
    by (auto dest: set_takeWhileD)
  have 3: "\<forall>c\<in>set ?post. is_space c"
    by (auto dest: set_takeWhileD)
  have 4: "\<not> is_space (hd (strip t)) \<and> \<not> is_space (last (strip t))" if ne: "strip t \<noteq> []"
  proof -
    from ne st have "dropWhile is_space (rev ?mid) \<noteq> []"
      by simp
    then have "\<not> is_space (hd (dropWhile is_space (rev ?mid)))"
      by (rule hd_dropWhile)
    then have l: "\<not> is_space (last (strip t))"
      using ne by (simp add: st last_rev)
    have "?mid \<noteq> []"
    proof
      assume e: "?mid = []"
      from mid have "strip t @ ?post = ?mid"
        by (rule sym)
      from this e have "strip t @ ?post = []"
        by (rule trans)
      then have "strip t = []"
        by (simp only: append_is_Nil_conv)
      with ne show False
        by (rule notE)
    qed
    then have "\<not> is_space (hd ?mid)"
      by (rule hd_dropWhile)
    moreover from ne mid have "hd ?mid = hd (strip t)"
      by (metis hd_append2)
    ultimately show ?thesis
      using l by simp
  qed
  from 1 2 3 4 show ?thesis
    by blast
qed

text \<open>
  C8, as the script has it. A line that contains the separator gives an entry, and the raw
  attribute string of the entry is what stands after the first occurrence of the
  separator, cut before the next occurrence of the separator if there is one, with the
  white space at both ends removed; the attributes are parsed from that string. A line
  without the separator gives no entry, and the lines after it are handled as usual.
  Here the line is its text before the first separator, the separator, and the text
  after it; and a text \<open>t\<close> is white space, then \<open>strip t\<close>, then white space, where
  \<open>strip t\<close> is empty or begins and ends with a character that is not white space.
\<close>

theorem raw_attribute_string_of_line:
  "entries_with_raw (line # ls) =
     (if contains line separator
      then (parse_attributes (strip (before_first separator (after_first separator line))),
            strip (before_first separator (after_first separator line))) # entries_with_raw ls
      else entries_with_raw ls) \<and>
   (contains line separator \<longrightarrow>
      line = before_first separator line @ separator @ after_first separator line) \<and>
   (\<exists>pre post. t = pre @ strip t @ post \<and> (\<forall>c\<in>set pre. is_space c) \<and> (\<forall>c\<in>set post. is_space c) \<and>
      (strip t = [] \<or> \<not> is_space (hd (strip t)) \<and> \<not> is_space (last (strip t))))"
proof -
  have "entries_with_raw (line # ls) =
      (parse_attributes (strip (before_first separator (after_first separator line))),
       strip (before_first separator (after_first separator line))) # entries_with_raw ls"
    if c: "contains line separator"
  proof -
    from split_from_head [OF separator_not_Nil, of "[]" "after_first separator line"]
    obtain ps where "split_from separator [] (after_first separator line) =
        before_first separator (after_first separator line) # ps"
      by auto
    with c have "split line separator =
        before_first separator line # before_first separator (after_first separator line) # ps"
      by (simp add: split_def split_from_present separator_not_Nil)
    then show ?thesis
      by simp
  qed
  moreover have "entries_with_raw (line # ls) = entries_with_raw ls"
    if "\<not> contains line separator"
    using that by (simp add: split_def split_from_absent)
  ultimately show ?thesis
    using around_first [of line separator] strip_around [of t] by simp
qed

theorem raw_attribute_string_of_line_witness:
  "entries_with_raw [twice_line, plain_line] = [(parse_attributes raw_b, raw_b)] \<and>
   entries_with_raw [nbsp_line] = [(parse_attributes raw_b, raw_b)]"
proof -
  have c3: "contains nbsp_line separator"
    by code_simp
  have r3: "strip (before_first separator (after_first separator nbsp_line)) = raw_b"
    by code_simp
  have n: "entries_with_raw [nbsp_line] = (parse_attributes raw_b, raw_b) # entries_with_raw []"
    using raw_attribute_string_of_line [of nbsp_line "[]" "[]", THEN conjunct1] c3
    by (simp only: if_True r3)
  have c1: "contains twice_line separator"
    by code_simp
  have c2: "\<not> contains plain_line separator"
    by code_simp
  have r: "strip (before_first separator (after_first separator twice_line)) = raw_b"
    by code_simp
  have "entries_with_raw [plain_line] = entries_with_raw []"
    using raw_attribute_string_of_line [of plain_line "[]" "[]", THEN conjunct1] c2
    by (simp only: if_False)
  moreover have "entries_with_raw [twice_line, plain_line] =
      (parse_attributes raw_b, raw_b) # entries_with_raw [plain_line]"
    using raw_attribute_string_of_line [of twice_line "[plain_line]" "[]", THEN conjunct1] c1
    by (simp only: if_True r)
  ultimately show ?thesis
    using n by simp
qed

text \<open>
  The raw attribute string is not everything after the first occurrence of the separator:
  in the line with two separators it is \<^verbatim>\<open>color=red feature=B\<close>, and what stands after the
  first separator is longer.
\<close>

theorem raw_attribute_string_of_line_counterexample:
  "map snd (entries_with_raw [twice_line]) \<noteq> [after_first separator twice_line]"
  by code_simp


section \<open>The report stays on one line\<close>

lemma split_from_newline:
  "newline \<notin> set cur \<Longrightarrow> \<forall>l\<in>set (split_from [newline] cur s). newline \<notin> set l"
proof (induction s arbitrary: cur)
  case Nil
  then show ?case by simp
next
  case (Cons c cs)
  show ?case
  proof (cases "c = newline")
    case True
    with Cons.prems Cons.IH [of "[]"] show ?thesis
      by simp
  next
    case False
    with Cons.prems Cons.IH [of "c # cur"] show ?thesis
      by simp
  qed
qed

lemma split_from_subset:
  "p \<in> set (split_from sep cur s) \<Longrightarrow> set p \<subseteq> set cur \<union> set s"
proof (induction sep cur s rule: split_from.induct)
  case (1 sep cur)
  then show ?case by simp
next
  case (2 sep cur c cs)
  show ?case
  proof (cases "sep \<noteq> [] \<and> startswith (c # cs) sep")
    case True
    with "2.prems" have "p = rev cur \<or> p \<in> set (split_from sep [] (drop (length sep) (c # cs)))"
      by simp
    then show ?thesis
    proof
      assume "p = rev cur"
      then show ?thesis by auto
    next
      assume "p \<in> set (split_from sep [] (drop (length sep) (c # cs)))"
      from "2.IH"(1) [OF True this] have "set p \<subseteq> set (drop (length sep) (c # cs))"
        by simp
      also have "\<dots> \<subseteq> set (c # cs)"
        by (rule set_drop_subset)
      finally show ?thesis by auto
    qed
  next
    case False
    with "2.prems" have "p \<in> set (split_from sep (c # cur) cs)"
      by auto
    from "2.IH"(2) [OF False this] show ?thesis
      by auto
  qed
qed

lemma set_strip: "set (strip s) \<subseteq> set s"
proof -
  have "set (strip s) \<subseteq> set (rev (dropWhile is_space s))"
    unfolding strip_def set_rev by (auto dest: set_dropWhileD)
  also have "\<dots> \<subseteq> set s"
    by (auto dest: set_dropWhileD)
  finally show ?thesis .
qed

lemma match_value_subset:
  assumes "match_value r = Some (v, rest)"
  shows "set v \<subseteq> set r \<and> set rest \<subseteq> set r"
proof (cases r)
  case Nil
  with assms show ?thesis by (simp add: match_value_def)
next
  case (Cons q t)
  have tl: "set (tl (dropWhile not_quote t)) \<subseteq> set t"
    by (metis list.set_sel(2) set_dropWhileD subsetI tl_Nil)
  have "set (takeWhile not_quote t) \<subseteq> set t" "set (takeWhile unquoted r) \<subseteq> set r"
    "set (dropWhile unquoted r) \<subseteq> set r"
    by (auto dest: set_takeWhileD set_dropWhileD)
  with tl assms Cons show ?thesis
    by (auto simp: match_value_def split: if_splits)
qed

lemma match_attribute_subset:
  assumes "match_attribute s = Some (key, v, rest)"
  shows "set v \<subseteq> set s \<and> set rest \<subseteq> set s"
proof -
  from assms obtain r where r: "dropWhile is_word s = CHR ''='' # r"
    and v: "match_value r = Some (v, rest)"
    by (auto simp: match_attribute_def Let_def split: list.splits if_splits option.splits)
  have "set (dropWhile is_word s) \<subseteq> set s"
    by (auto dest: set_dropWhileD)
  with r have "set r \<subseteq> set s"
    by auto
  with match_value_subset [OF v] show ?thesis
    by blast
qed

lemma find_attributes_subset:
  "(key, v) \<in> set (find_attributes s) \<Longrightarrow> set v \<subseteq> set s"
proof (induction s rule: find_attributes.induct)
  case 1
  then show ?case by simp
next
  case (2 c cs)
  show ?case
  proof (cases "match_attribute (c # cs)")
    case None
    with "2.prems" have "(key, v) \<in> set (find_attributes cs)"
      by simp
    from "2.IH"(1) [OF None this] show ?thesis
      by auto
  next
    case (Some m)
    obtain k w rest where m: "m = (k, w, rest)"
      by (cases m) auto
    from match_attribute_subset Some m
    have sub: "set w \<subseteq> set (c # cs)" "set rest \<subseteq> set (c # cs)"
      by blast+
    from "2.prems" Some m have "(key, v) = (k, w) \<or> (key, v) \<in> set (find_attributes rest)"
      by simp
    then show ?thesis
    proof
      assume "(key, v) = (k, w)"
      with sub show ?thesis by simp
    next
      assume "(key, v) \<in> set (find_attributes rest)"
      from "2.IH"(2) [OF Some m [symmetric] refl this] sub show ?thesis
        by blast
    qed
  qed
qed

lemma fold_update_Some:
  "fold (\<lambda>(key, v) attributes. attributes(key \<mapsto> v)) kvs m k = Some v \<Longrightarrow>
   (k, v) \<in> set kvs \<or> m k = Some v"
proof (induction kvs arbitrary: m)
  case Nil
  then show ?case by simp
next
  case (Cons kv kvs)
  obtain a b where kv: "kv = (a, b)"
    by (cases kv) auto
  from Cons.prems
  have "fold (\<lambda>(key, v) attributes. attributes(key \<mapsto> v)) kvs (m(a \<mapsto> b)) k = Some v"
    unfolding kv by (simp only: fold_simps prod.case)
  from Cons.IH [OF this] have "(k, v) \<in> set kvs \<or> (m(a \<mapsto> b)) k = Some v" .
  then show ?case
    using kv by (cases "k = a") auto
qed

lemma parse_attributes_subset:
  "parse_attributes s k = Some v \<Longrightarrow> set v \<subseteq> set s"
  unfolding parse_attributes_def
  by (auto dest!: fold_update_Some dest: find_attributes_subset)


lemma select_block_Inr:
  "select_block lines = Inr (block, ts) \<Longrightarrow>
   lines \<noteq> [] \<and> match_prefix timestamp_regex (last lines) = Some ts \<and>
   block = collect_block ts (rev lines) []"
  by (auto simp: select_block_def split: if_splits option.splits)

lemma block_no_newline:
  assumes "get_latest_log_block process = Inr (block, ts)"
  shows "(\<forall>l\<in>set block. newline \<notin> set l) \<and> newline \<notin> set ts"
proof -
  from assms obtain out
    where sel: "select_block (filter (\<lambda>line. contains line marker) (split (strip out) [newline]))
      = Inr (block, ts)"
    by (auto simp: get_latest_log_block_def split: tail_run.splits if_splits)
  let ?lines = "filter (\<lambda>line. contains line marker) (split (strip out) [newline])"
  have nl: "\<forall>l\<in>set ?lines. newline \<notin> set l"
    using split_from_newline [of "[]" "strip out"] by (simp add: split_def)
  from select_block_Inr [OF sel] have ne: "?lines \<noteq> []"
    and ts: "match_prefix timestamp_regex (last ?lines) = Some ts"
    and bl: "block = collect_block ts (rev ?lines) []"
    by blast+
  from bl have "set block \<subseteq> set ?lines"
    by (auto simp: collect_block_eq dest: set_takeWhileD)
  with nl have 1: "\<forall>l\<in>set block. newline \<notin> set l"
    by blast
  from ne have "last ?lines \<in> set ?lines"
    by (rule last_in_set)
  with nl have "newline \<notin> set (last ?lines)"
    by blast
  moreover from match_prefix_startswith [OF ts] have "set ts \<subseteq> set (last ?lines)"
    by (auto simp: startswith_iff)
  ultimately have "newline \<notin> set ts"
    by blast
  with 1 show ?thesis
    by simp
qed

lemma entries_with_raw_subset:
  "e \<in> set (entries_with_raw block) \<Longrightarrow>
   \<exists>line\<in>set block. set (snd e) \<subseteq> set line \<and> fst e = parse_attributes (snd e)"
proof (induction block)
  case Nil
  then show ?case by simp
next
  case (Cons line ls)
  show ?case
  proof (cases "e \<in> set (entries_with_raw ls)")
    case True
    with Cons.IH show ?thesis by auto
  next
    case False
    with Cons.prems obtain p0 p1 ps where sp: "split line separator = p0 # p1 # ps"
      and e: "e = (parse_attributes (strip p1), strip p1)"
      by (auto split: list.splits)
    from sp have "p1 \<in> set (split_from separator [] line)"
      by (simp add: split_def)
    from split_from_subset [OF this] have "set p1 \<subseteq> set line"
      by simp
    with set_strip [of p1] have "set (strip p1) \<subseteq> set line"
      by blast
    with e show ?thesis
      by simp
  qed
qed

lemma upper_chr_newline:
  assumes "newline \<in> set (upper_chr c)"
  shows "c = newline"
proof (cases "c = CHR 0xDF")
  case True
  with assms show ?thesis
    by (simp add: upper_chr_def newline_def)
next
  case sharp: False
  let ?m = "map_of (zip (lower_letters @ latin_lower_letters) (upper_letters @ latin_upper_letters))"
  show ?thesis
  proof (cases "?m c")
    case None
    with assms sharp show ?thesis
      by (simp add: upper_chr_def)
  next
    case (Some d)
    with assms sharp have "d = newline"
      by (simp add: upper_chr_def)
    moreover from Some have "d \<in> set (upper_letters @ latin_upper_letters)"
      by (auto dest!: map_of_SomeD dest: set_zip_rightD)
    ultimately have False
      by (simp add: upper_letters_def latin_upper_letters_def newline_def)
    then show ?thesis ..
  qed
qed

lemma upper_no_newline: "newline \<notin> set s \<Longrightarrow> newline \<notin> set (upper s)"
  by (auto simp: upper_def dest: upper_chr_newline)

lemma join_no_newline:
  "newline \<notin> set sep \<Longrightarrow> \<forall>x\<in>set xs. newline \<notin> set x \<Longrightarrow> newline \<notin> set (join sep xs)"
  by (induction sep xs rule: join.induct) auto

lemma display_name_no_newline:
  assumes "\<forall>k v. d k = Some v \<longrightarrow> newline \<notin> set v"
  shows "newline \<notin> set (display_name d)"
proof -
  have "display_name d = ''Component'' \<or> d ''feature'' = Some (display_name d)
      \<or> d ''node_path'' = Some (display_name d)"
    by (auto simp: display_name_def split: option.splits list.splits)
  moreover have "newline \<notin> set ''Component''"
    by (simp add: newline_def)
  ultimately show ?thesis
    using assms by metis
qed

lemma problem_item_no_newline:
  assumes "\<forall>k v. fst e k = Some v \<longrightarrow> newline \<notin> set v"
  shows "newline \<notin> set (problem_item e)"
proof -
  have "newline \<notin> set ''N/A''"
    by (simp add: newline_def)
  with assms have "newline \<notin> set (get_default (fst e) ''color'' ''N/A'')"
    by (simp add: get_default_def split: option.splits)
  then have "newline \<notin> set (upper (get_default (fst e) ''color'' ''N/A''))"
    by (rule upper_no_newline)
  moreover have "newline \<notin> set ''[''" "newline \<notin> set ''] ''"
    by (simp_all add: newline_def)
  moreover note display_name_no_newline [OF assms]
  ultimately show ?thesis
    by (simp add: problem_item_def)
qed

lemma output_summary_no_newline:
  "newline \<notin> set timestamp \<Longrightarrow> newline \<notin> set (output_summary entries timestamp)"
  by (simp add: output_summary_def status_text_eq overall_color_eq upper_simps newline_def)

lemma report_no_newline:
  assumes ts: "newline \<notin> set timestamp"
    and raw: "\<forall>e\<in>set entries. newline \<notin> set (snd e)"
    and att: "\<forall>e\<in>set entries. \<forall>k v. fst e k = Some v \<longrightarrow> newline \<notin> set v"
  shows "newline \<notin> set (report entries timestamp)"
proof -
  have sub: "set (problems entries) \<subseteq> set entries"
    by (auto simp: problems_def)
  have esc: "newline \<notin> set escaped_newline"
    by (simp add: escaped_newline_def backslash_def newline_def)
  have comma: "newline \<notin> set '', ''"
    by (simp add: newline_def)
  have "\<forall>x\<in>set (problem_lines_raw entries). newline \<notin> set x"
    using raw sub by (auto simp: problem_lines_raw_def)
  with esc have detail: "newline \<notin> set (join escaped_newline (problem_lines_raw entries))"
    by (rule join_no_newline)
  have "\<forall>x\<in>set (take 2 (problems_summary_list entries)). newline \<notin> set x"
  proof
    fix x assume "x \<in> set (take 2 (problems_summary_list entries))"
    then have "x \<in> set (problems_summary_list entries)"
      by (rule in_set_takeD)
    then obtain e where "e \<in> set (problems entries)" and x: "x = problem_item e"
      by (auto simp: problems_summary_list_def)
    with sub att have "\<forall>k v. fst e k = Some v \<longrightarrow> newline \<notin> set v"
      by blast
    from problem_item_no_newline [OF this] x show "newline \<notin> set x"
      by simp
  qed
  with comma have "newline \<notin> set (join '', '' (take 2 (problems_summary_list entries)))"
    by (rule join_no_newline)
  then have issues: "newline \<notin> set (issues_section entries)"
    by (simp add: issues_section_def newline_def)
  have code: "newline \<notin> set (str_nat (status_code entries))"
    by (simp add: status_code_eq str_nat_simps newline_def)
  have fixed: "newline \<notin> set ('' '' @ [quote] @ ''Splunk Health'' @ [quote] @ '' - '')"
    by (simp add: newline_def quote_def)
  from output_summary_no_newline [OF ts, of entries] issues detail esc
  have "newline \<notin> set (final_output entries timestamp)"
    by (simp add: final_output_def summary_line_def)
  with code fixed show ?thesis
    by (simp add: report_def service_line_def)
qed

lemma main_report:
  assumes "get_latest_log_block process = Inr (block, timestamp)"
    and "entries_with_raw block \<noteq> []"
  shows "main process = report (entries_with_raw block) timestamp"
proof -
  from assms(2) have "block \<noteq> []"
    by auto
  with assms show ?thesis
    by (simp add: main_def Let_def)
qed

text \<open>
  C6, as the script has it. When the status code is above 0 and some entry is a problem
  (its colour is not \<open>green\<close>), problem lines are collected, and the final output is the
  summary line, then the two characters backslash and \<open>n\<close>, then the raw attribute
  strings of the problem entries in their order, joined by the same two characters. When
  the entries are those of the block that the tail run gave, this is what the probe
  prints behind the status code and the service name, and the whole printed line holds no
  newline character.
\<close>

theorem detail_lines_escaped:
  assumes "status_code entries > 0" and "\<exists>e\<in>set entries. is_problem e"
  shows "final_output entries timestamp =
      summary_line entries timestamp @ [backslash, CHR ''n'']
        @ join [backslash, CHR ''n''] (map snd (filter is_problem entries)) \<and>
    backslash = CHR 0x5C \<and>
    problem_lines_raw entries = map snd (filter is_problem entries) \<and>
    problem_lines_raw entries \<noteq> [] \<and>
    (get_latest_log_block process = Inr (block, timestamp) \<and> entries_with_raw block = entries \<longrightarrow>
       main process = service_line (str_nat (status_code entries)) (final_output entries timestamp) \<and>
       newline \<notin> set (main process))"
proof -
  from assms(1) have 4: "problem_lines_raw entries = map snd (filter is_problem entries)"
    by (simp add: problem_lines_raw_def problems_pos)
  from assms(1) have 5: "problem_lines_raw entries \<noteq> []"
    by (simp add: problem_lines_raw_Nil_iff)
  from 4 5 have 1: "final_output entries timestamp =
      summary_line entries timestamp @ [backslash, CHR ''n'']
        @ join [backslash, CHR ''n''] (map snd (filter is_problem entries))"
    by (simp add: final_output_def escaped_newline_def)
  have 2: "main process = service_line (str_nat (status_code entries)) (final_output entries timestamp) \<and>
       newline \<notin> set (main process)"
    if b: "get_latest_log_block process = Inr (block, timestamp)"
      and e: "entries_with_raw block = entries"
  proof -
    from assms(2) have "entries \<noteq> []"
      by auto
    with e have ne: "entries_with_raw block \<noteq> []"
      by simp
    from main_report [OF b ne] e have m: "main process = report entries timestamp"
      by simp
    from block_no_newline [OF b] have bl: "\<forall>l\<in>set block. newline \<notin> set l"
      and ts: "newline \<notin> set timestamp"
      by blast+
    have raw: "\<forall>x\<in>set entries. newline \<notin> set (snd x)"
    proof
      fix x assume "x \<in> set entries"
      with e entries_with_raw_subset [of x block] bl show "newline \<notin> set (snd x)"
        by blast
    qed
    have att: "\<forall>x\<in>set entries. \<forall>k v. fst x k = Some v \<longrightarrow> newline \<notin> set v"
    proof (intro ballI allI impI)
      fix x k v assume x: "x \<in> set entries" and v: "fst x k = Some v"
      with e entries_with_raw_subset [of x block] have "fst x = parse_attributes (snd x)"
        by blast
      with v parse_attributes_subset [of "snd x" k v] have "set v \<subseteq> set (snd x)"
        by simp
      with raw x show "newline \<notin> set v"
        by blast
    qed
    from report_no_newline [OF ts raw att] m show ?thesis
      by (simp add: report_def)
  qed
  have 3: "backslash = CHR 0x5C"
    by (simp add: backslash_def)
  from 1 2 3 4 5 show ?thesis
    by blast
qed

theorem detail_lines_escaped_witness:
  "main (Completed 0 example_stdout []) =
     ''2 '' @ [quote] @ ''Splunk Health'' @ [quote]
       @ '' - CRIT: Overall status is RED (Log Time: 14-11-2025 10:00:00.123 +0100)''
       @ '' (Issues: [RED] B, [YELLOW] C...)''
       @ [CHR 0x5C, CHR ''n''] @ ''color=red feature=B''
       @ [CHR 0x5C, CHR ''n''] @ ''color=yellow feature=C'' \<and>
   newline \<notin> set (main (Completed 0 example_stdout []))"
proof -
  have c: "status_code (entries_with_raw example_block) > 0"
    by code_simp
  have p: "\<exists>e\<in>set (entries_with_raw example_block). is_problem e"
    by code_simp
  have b: "get_latest_log_block (Completed 0 example_stdout []) = Inr (example_block, latest_timestamp)"
    by code_simp
  have v: "main (Completed 0 example_stdout []) =
     ''2 '' @ [quote] @ ''Splunk Health'' @ [quote]
       @ '' - CRIT: Overall status is RED (Log Time: 14-11-2025 10:00:00.123 +0100)''
       @ '' (Issues: [RED] B, [YELLOW] C...)''
       @ [CHR 0x5C, CHR ''n''] @ ''color=red feature=B''
       @ [CHR 0x5C, CHR ''n''] @ ''color=yellow feature=C''"
    by code_simp
  from b have h: "get_latest_log_block (Completed 0 example_stdout []) = Inr (example_block, latest_timestamp)
      \<and> entries_with_raw example_block = entries_with_raw example_block"
    by (rule conjI [OF _ refl])
  have "newline \<notin> set (main (Completed 0 example_stdout []))"
    by (rule detail_lines_escaped [OF c p, THEN conjunct2, THEN conjunct2, THEN conjunct2,
          THEN conjunct2, THEN mp, OF h, THEN conjunct2])
  with v show ?thesis
    by (rule conjI)
qed

text \<open>
  A problem entry alone does not give detail lines. The block of the one entry
  \<^verbatim>\<open>color=blue\<close> has a problem entry, its status code is 0, and its final output is the
  plain summary, with no backslash and \<open>n\<close> behind it.
\<close>

theorem detail_lines_escaped_counterexample:
  "is_problem blue_entry \<and>
   final_output [blue_entry] latest_timestamp =
     ''OK: Overall status is GREEN (Log Time: 14-11-2025 10:00:00.123 +0100)'' \<and>
   final_output [blue_entry] latest_timestamp \<noteq>
     summary_line [blue_entry] latest_timestamp @ [backslash, CHR ''n'']
       @ join [backslash, CHR ''n''] (map snd (filter is_problem [blue_entry]))"
proof -
  have col: "entry_color blue_entry = ''blue''"
    by (simp add: blue_entry_def entry_color_def get_default_def lower_simps)
  then have p: "is_problem blue_entry"
    by (simp add: is_problem_def)
  from col have code: "status_code [blue_entry] = 0"
    by (simp add: status_code_eq)
  then have raw: "problem_lines_raw [blue_entry] = []"
    by (simp add: problem_lines_raw_Nil_iff)
  from col have "output_summary [blue_entry] latest_timestamp =
      ''OK: Overall status is GREEN (Log Time: 14-11-2025 10:00:00.123 +0100)''"
    by (simp add: output_summary_def status_text_eq overall_color_eq upper_simps latest_timestamp_def)
  with raw have f: "final_output [blue_entry] latest_timestamp =
      ''OK: Overall status is GREEN (Log Time: 14-11-2025 10:00:00.123 +0100)''"
    and s: "summary_line [blue_entry] latest_timestamp =
      ''OK: Overall status is GREEN (Log Time: 14-11-2025 10:00:00.123 +0100)''"
    by (simp_all add: final_output_def summary_line_def)
  have "final_output [blue_entry] latest_timestamp \<noteq>
     summary_line [blue_entry] latest_timestamp @ [backslash, CHR ''n'']
       @ join [backslash, CHR ''n''] (map snd (filter is_problem [blue_entry]))"
    unfolding f s by simp
  with p f show ?thesis
    by simp
qed

end
